theory Spec2Isabelle
  imports Main
begin

section \<open>Python values and builtins used by localflavor/it/util.py\<close>

text \<open>
  A Python \<open>str\<close> is a sequence of code points; it is modelled as a \<open>string\<close> whose
  characters are the code points below 256. The public functions of the module take a
  text or an integer, so a Python value is one of the two. Integers are unbounded; only their conversion
  to and from a decimal text is limited.
\<close>

datatype pyval = PStr string | PInt int

text \<open>
  The exceptions the module can raise. The first five are all Python's \<open>ValueError\<close>,
  told apart by the place that raises them:
  \<^item> \<open>FormatError lit\<close>: raised by the builtin \<open>int()\<close> on the text \<open>lit\<close>
    (invalid literal for int() with base 10);
  \<^item> \<open>DigitLimitError\<close>: raised by \<open>int()\<close> on a text and by \<open>str()\<close> and \<open>%d\<close> on
    an integer when the number of digits exceeds the interpreter's limit (Exceeds the
    limit for integer string conversion);
  \<^item> \<open>InvalidCharacterError msg\<close>: raised by \<open>ssn_check_digit\<close> with the message
    \<open>msg\<close>, given as the list of its code points;
  \<^item> \<open>ChecksumMismatchError\<close>: raised by the two validation functions
    (Check digit does not match.);
  \<^item> \<open>NotInListError\<close>: raised by \<open>list.index\<close>;
  \<^item> \<open>AssertionError\<close>: a failed \<open>assert\<close>;
  \<^item> \<open>IndexError\<close>: a string index out of range.
\<close>

datatype error =
    FormatError string
  | DigitLimitError
  | InvalidCharacterError "nat list"
  | ChecksumMismatchError
  | NotInListError
  | AssertionError
  | IndexError

definition py_ord :: "char \<Rightarrow> nat" where
  "py_ord c = of_char c"

definition py_chr :: "nat \<Rightarrow> char" where
  "py_chr n = char_of n"

definition is_digit :: "char \<Rightarrow> bool" where
  "is_digit c = (48 \<le> py_ord c \<and> py_ord c \<le> 57)"

definition digit_val :: "char \<Rightarrow> nat" where
  "digit_val c = py_ord c - 48"

definition digit_char :: "nat \<Rightarrow> char" where
  "digit_char d = py_chr (48 + d)"

text \<open>\<open>s[a:b]\<close> for \<open>0 \<le> a \<le> b\<close>: a slice is clamped to the string, it never raises.\<close>

definition slice :: "nat \<Rightarrow> nat \<Rightarrow> string \<Rightarrow> string" where
  "slice a b s = take (b - a) (drop a s)"

text \<open>
  \<open>str.upper()\<close> on code points below 256: the letters a-z and the Latin-1 letters
  0xE0-0xFE (but the division sign 0xF7) move down by 32, the sharp s 0xDF becomes the
  two letters SS, everything else is unchanged but two code points: 0xB5 and 0xFF have
  an upper case beyond 255, the code points 0x39C and 0x178. No upper-cased text holds
  0xB5 or 0xFF, so in the result of \<open>upper\<close> these two characters are free, and they
  stand there for 0x39C and 0x178: \<open>upper_code_point\<close> is the code point that a
  character of an upper-cased text stands for.
\<close>

definition upper_char :: "char \<Rightarrow> string" where
  "upper_char c =
     (let n = py_ord c in
      if 97 \<le> n \<and> n \<le> 122 then [py_chr (n - 32)]
      else if n = 223 then ''SS''
      else if 224 \<le> n \<and> n \<le> 254 \<and> n \<noteq> 247 then [py_chr (n - 32)]
      else [c])"

definition upper :: "string \<Rightarrow> string" where
  "upper s = concat (map upper_char s)"

definition upper_code_point :: "char \<Rightarrow> nat" where
  "upper_code_point c =
     (if py_ord c = 181 then 924 else if py_ord c = 255 then 376 else py_ord c)"

text \<open>
  The interpreter's limit on the number of digits of a conversion between an integer
  and a decimal text, \<open>sys.get_int_max_str_digits()\<close>: 4300 in CPython 3.11 and later,
  unless it is reconfigured.
\<close>

definition int_max_str_digits :: nat where
  "int_max_str_digits = 4300"

text \<open>
  The decimal representation of an integer: the decimal digits, after a minus sign
  when negative. \<open>str(n)\<close> returns it, unless the number has more digits than the
  limit.
\<close>

fun digits_of :: "nat \<Rightarrow> string" where
  "digits_of n = (if n < 10 then [digit_char n] else digits_of (n div 10) @ [digit_char (n mod 10)])"

definition decimal_repr :: "int \<Rightarrow> string" where
  "decimal_repr n = (if n < 0 then CHR ''-'' # digits_of (nat (- n)) else digits_of (nat n))"

definition py_str :: "int \<Rightarrow> error + string" where
  "py_str n =
     (if int_max_str_digits < length (digits_of (nat \<bar>n\<bar>)) then Inl DigitLimitError
      else Inr (decimal_repr n))"

text \<open>
  \<open>s.zfill(width)\<close>: zeros are added on the left up to \<open>width\<close> characters, after a
  leading sign when there is one; a string that is long enough is unchanged.
\<close>

definition zfill :: "nat \<Rightarrow> string \<Rightarrow> string" where
  "zfill width s =
     (if width \<le> length s then s
      else case s of
        c # cs \<Rightarrow>
          if c = CHR ''+'' \<or> c = CHR ''-'' then c # replicate (width - length s) CHR ''0'' @ cs
          else replicate (width - length s) CHR ''0'' @ s
      | [] \<Rightarrow> replicate width CHR ''0'')"

text \<open>
  \<open>int(s)\<close> for a text, base 10: white space around the literal is dropped (tab, line
  feed, vertical tab, form feed, carriage return, space, and of the code points from 128
  to 255 the next-line 0x85 and the no-break space 0xA0); then an optional sign; then
  the run of digits and underscores is read, where single underscores may stand between
  two digits. A run that is empty or misplaces an underscore is an invalid literal; a
  run of more digits than the limit (leading zeros counted, underscores not) exceeds the
  limit; anything left after the run is an invalid literal.
\<close>

definition is_space :: "char \<Rightarrow> bool" where
  "is_space c = (let n = py_ord c in (9 \<le> n \<and> n \<le> 13) \<or> n = 32 \<or> n = 133 \<or> n = 160)"

definition strip :: "string \<Rightarrow> string" where
  "strip s = rev (dropWhile is_space (rev (dropWhile is_space s)))"

fun digits_val :: "string \<Rightarrow> nat \<Rightarrow> nat option" where
  "digits_val [] acc = Some acc"
| "digits_val (c # cs) acc =
     (if is_digit c then digits_val cs (10 * acc + digit_val c)
      else if c = CHR ''_'' \<and> cs \<noteq> [] \<and> is_digit (hd cs) then digits_val cs acc
      else None)"

definition int_body :: "string \<Rightarrow> nat option" where
  "int_body s = (case s of [] \<Rightarrow> None | c # cs \<Rightarrow> if is_digit c then digits_val (c # cs) 0 else None)"

definition count_digits :: "string \<Rightarrow> nat" where
  "count_digits s = length (filter is_digit s)"

definition py_int_str :: "string \<Rightarrow> error + int" where
  "py_int_str s =
     (case strip s of
        [] \<Rightarrow> Inl (FormatError s)
      | c # cs \<Rightarrow>
          (let body = (if c = CHR ''-'' \<or> c = CHR ''+'' then cs else c # cs);
               run = takeWhile (\<lambda>d. is_digit d \<or> d = CHR ''_'') body
           in case int_body run of
                None \<Rightarrow> Inl (FormatError s)
              | Some v \<Rightarrow>
                  if int_max_str_digits < count_digits run then Inl DigitLimitError
                  else if run \<noteq> body then Inl (FormatError s)
                  else Inr (if c = CHR ''-'' then - int v else int v)))"

text \<open>\<open>int(x)\<close>: an integer is returned as it is, a text is parsed.\<close>

definition py_int :: "pyval \<Rightarrow> error + int" where
  "py_int x = (case x of PInt n \<Rightarrow> Inr n | PStr s \<Rightarrow> py_int_str s)"

text \<open>Django's \<open>smart_text(x)\<close>: a text is returned as it is, an integer as \<open>str(x)\<close>.\<close>

definition smart_text :: "pyval \<Rightarrow> error + string" where
  "smart_text x = (case x of PStr s \<Rightarrow> Inr s | PInt n \<Rightarrow> py_str n)"

text \<open>\<open>"%02d" % n\<close>: the decimal digits, padded with zeros after the sign to two characters.\<close>

definition format_02d :: "int \<Rightarrow> error + string" where
  "format_02d n = (case py_str n of Inl e \<Rightarrow> Inl e | Inr s \<Rightarrow> Inr (zfill 2 s))"

section \<open>The fiscal code: syntax\<close>

text \<open>
  The regular expression \<open>PATTERN\<close> is a sequence of character classes, each repeated a
  fixed number of times, between \<open>^\<close> and \<open>$\<close>. A class is a range \<open>[a-b]\<close>, a set
  \<open>[abc]\<close> or an alternative of two classes \<open>(x|y)\<close>; the groups capture only.
\<close>

datatype cls = Range char char | OneOf string | Alt cls cls

fun cls_match :: "cls \<Rightarrow> char \<Rightarrow> bool" where
  "cls_match (Range a b) c = (py_ord a \<le> py_ord c \<and> py_ord c \<le> py_ord b)"
| "cls_match (OneOf cs) c = (c \<in> set cs)"
| "cls_match (Alt x y) c = (cls_match x c \<or> cls_match y c)"

definition PATTERN :: "(cls \<times> nat) list" where
  "PATTERN =
     [(Range CHR ''A'' CHR ''Z'', 6), (Range CHR ''0'' CHR ''9'', 2),
      (OneOf ''ABCDEHLMPRST'', 1), (Range CHR ''0'' CHR ''9'', 2),
      (Range CHR ''A'' CHR ''Z'', 1), (Range CHR ''0'' CHR ''9'', 1),
      (Alt (Range CHR ''A'' CHR ''Z'') (Range CHR ''0'' CHR ''9''), 1),
      (Range CHR ''0'' CHR ''9'', 1), (Range CHR ''A'' CHR ''Z'', 1)]"

definition MONTHSCODE :: "string list" where
  "MONTHSCODE = [''A'', ''B'', ''C'', ''D'', ''E'', ''H'', ''L'', ''M'', ''P'', ''R'', ''S'', ''T'']"

text \<open>
  \<open>re.match(pattern, s)\<close> with no flags: the classes are matched from the start of the
  text, one character each; \<open>$\<close> matches at the end of the text and also just before a
  line feed that ends the text.
\<close>

fun match_items :: "(cls \<times> nat) list \<Rightarrow> string \<Rightarrow> string option" where
  "match_items [] s = Some s"
| "match_items ((k, n) # items) s =
     (if n \<le> length s \<and> list_all (cls_match k) (take n s) then match_items items (drop n s)
      else None)"

definition at_dollar :: "string \<Rightarrow> bool" where
  "at_dollar rest = (rest = [] \<or> rest = [CHR 0x0A])"

definition re_match :: "(cls \<times> nat) list \<Rightarrow> string \<Rightarrow> bool" where
  "re_match p s = (case match_items p s of None \<Rightarrow> False | Some rest \<Rightarrow> at_dollar rest)"

definition ssn_isvalid :: "pyval \<Rightarrow> bool" where
  "ssn_isvalid code = (case code of PStr s \<Rightarrow> re_match PATTERN s | PInt n \<Rightarrow> False)"

section \<open>The fiscal code: birthday and sex\<close>

text \<open>\<open>xs.index(x)\<close>: the position of the first \<open>x\<close>, a \<open>ValueError\<close> when there is none.\<close>

fun index_of :: "'a list \<Rightarrow> 'a \<Rightarrow> nat option" where
  "index_of [] x = None"
| "index_of (y # ys) x = (if y = x then Some 0 else map_option Suc (index_of ys x))"

text \<open>
  Python's \<open>a and b or c\<close> is \<open>c\<close> when \<open>a\<close> is false and also when \<open>a\<close> is true and
  \<open>b\<close> is falsy. In \<open>day < 32 and day or day - 40\<close> the middle value is an integer,
  falsy when it is 0; in \<open>... < 32 and 'M' or 'F'\<close> it is a text that is not empty.
\<close>

definition ssn_get_birthday :: "pyval \<Rightarrow> error + string" where
  "ssn_get_birthday code =
     (if \<not> ssn_isvalid code then Inl AssertionError
      else case code of
        PInt n \<Rightarrow> Inl AssertionError
      | PStr s \<Rightarrow>
          (case py_int (PStr (slice 9 11 s)) of
             Inl e \<Rightarrow> Inl e
           | Inr day0 \<Rightarrow>
               (let day = (if day0 < 32 then (if day0 \<noteq> 0 then day0 else day0 - 40) else day0 - 40)
                in if length s \<le> 8 then Inl IndexError
                   else case index_of MONTHSCODE [s ! 8] of
                     None \<Rightarrow> Inl NotInListError
                   | Some i \<Rightarrow>
                       (let month = int i + 1 in
                        case py_int (PStr (slice 6 8 s)) of
                          Inl e \<Rightarrow> Inl e
                        | Inr year \<Rightarrow>
                            (case format_02d day of
                               Inl e \<Rightarrow> Inl e
                             | Inr dd \<Rightarrow>
                                 (case format_02d month of
                                    Inl e \<Rightarrow> Inl e
                                  | Inr mm \<Rightarrow>
                                      (case format_02d year of
                                         Inl e \<Rightarrow> Inl e
                                       | Inr yy \<Rightarrow> Inr (dd @ ''/'' @ mm @ ''/'' @ yy))))))))"

definition ssn_get_sex :: "pyval \<Rightarrow> error + string" where
  "ssn_get_sex code =
     (if \<not> ssn_isvalid code then Inl AssertionError
      else case code of
        PInt n \<Rightarrow> Inl AssertionError
      | PStr s \<Rightarrow>
          (case py_int (PStr (slice 9 11 s)) of
             Inl e \<Rightarrow> Inl e
           | Inr raw \<Rightarrow> Inr (if raw < 32 then (if ''M'' \<noteq> [] then ''M'' else ''F'') else ''F'')))"

section \<open>The fiscal code: check digit\<close>

definition ssn_even_chars :: "char \<rightharpoonup> int" where
  "ssn_even_chars = map_of
     [(CHR ''0'', 0), (CHR ''1'', 1), (CHR ''2'', 2), (CHR ''3'', 3), (CHR ''4'', 4),
      (CHR ''5'', 5), (CHR ''6'', 6), (CHR ''7'', 7), (CHR ''8'', 8), (CHR ''9'', 9),
      (CHR ''A'', 0), (CHR ''B'', 1), (CHR ''C'', 2), (CHR ''D'', 3), (CHR ''E'', 4),
      (CHR ''F'', 5), (CHR ''G'', 6), (CHR ''H'', 7), (CHR ''I'', 8), (CHR ''J'', 9),
      (CHR ''K'', 10), (CHR ''L'', 11), (CHR ''M'', 12), (CHR ''N'', 13), (CHR ''O'', 14),
      (CHR ''P'', 15), (CHR ''Q'', 16), (CHR ''R'', 17), (CHR ''S'', 18), (CHR ''T'', 19),
      (CHR ''U'', 20), (CHR ''V'', 21), (CHR ''W'', 22), (CHR ''X'', 23), (CHR ''Y'', 24),
      (CHR ''Z'', 25)]"

definition ssn_odd_chars :: "char \<rightharpoonup> int" where
  "ssn_odd_chars = map_of
     [(CHR ''0'', 1), (CHR ''1'', 0), (CHR ''2'', 5), (CHR ''3'', 7), (CHR ''4'', 9),
      (CHR ''5'', 13), (CHR ''6'', 15), (CHR ''7'', 17), (CHR ''8'', 19), (CHR ''9'', 21),
      (CHR ''A'', 1), (CHR ''B'', 0), (CHR ''C'', 5), (CHR ''D'', 7), (CHR ''E'', 9),
      (CHR ''F'', 13), (CHR ''G'', 15), (CHR ''H'', 17), (CHR ''I'', 19), (CHR ''J'', 21),
      (CHR ''K'', 2), (CHR ''L'', 4), (CHR ''M'', 18), (CHR ''N'', 20), (CHR ''O'', 11),
      (CHR ''P'', 3), (CHR ''Q'', 6), (CHR ''R'', 8), (CHR ''S'', 12), (CHR ''T'', 14),
      (CHR ''U'', 16), (CHR ''V'', 10), (CHR ''W'', 22), (CHR ''X'', 25), (CHR ''Y'', 24),
      (CHR ''Z'', 23)]"

text \<open>The letters from A to Z, each a text of one character.\<close>

definition ssn_check_digits :: "string list" where
  "ssn_check_digits = map (\<lambda>x. [py_chr x]) [65..<91]"

text \<open>
  The message \<open>"Character '%(char)s' is not allowed."\<close> for a character of the
  upper-cased text, as the list of its code points (39 is the apostrophe).
\<close>

definition not_allowed_msg :: "char \<Rightarrow> nat list" where
  "not_allowed_msg c =
     map py_ord ''Character '' @ [39, upper_code_point c, 39] @ map py_ord '' is not allowed.''"

text \<open>
  The loop \<open>for i in range(0, 15)\<close>, over the indices still to visit. Reading \<open>ssn[i]\<close>
  beyond the end of the text is an \<open>IndexError\<close>, which the \<open>except KeyError\<close> does not
  catch; a character that is not a key of the table is the \<open>ValueError\<close> with the message.
\<close>

fun ssn_loop :: "string \<Rightarrow> nat list \<Rightarrow> int \<Rightarrow> error + int" where
  "ssn_loop ssn [] tot = Inr tot"
| "ssn_loop ssn (i # rest) tot =
     (if length ssn \<le> i then Inl IndexError
      else case (if i mod 2 = 0 then ssn_odd_chars else ssn_even_chars) (ssn ! i) of
        None \<Rightarrow> Inl (InvalidCharacterError (not_allowed_msg (ssn ! i)))
      | Some w \<Rightarrow> ssn_loop ssn rest (tot + w))"

definition ssn_check_digit :: "string \<Rightarrow> error + string" where
  "ssn_check_digit v =
     (let ssn = upper v in
      case ssn_loop ssn [0..<15] 0 of
        Inl e \<Rightarrow> Inl e
      | Inr tot \<Rightarrow> Inr (ssn_check_digits ! nat (tot mod 26)))"

definition ssn_validation :: "string \<Rightarrow> error + string" where
  "ssn_validation ssn_value =
     (case ssn_check_digit ssn_value of
        Inl e \<Rightarrow> Inl e
      | Inr check_digit \<Rightarrow>
          if length ssn_value \<le> 15 then Inl IndexError
          else if [ssn_value ! 15] \<noteq> check_digit then Inl ChecksumMismatchError
          else Inr ssn_value)"

section \<open>The VAT number\<close>

text \<open>
  The two loops of \<open>vat_number_check_digit\<close>, over \<open>range(0, 10, 2)\<close> and
  \<open>range(1, 11, 2)\<close>; \<open>int()\<close> of the character read may raise.
\<close>

fun vat_loop_even :: "string \<Rightarrow> nat list \<Rightarrow> int \<Rightarrow> error + int" where
  "vat_loop_even s [] tot = Inr tot"
| "vat_loop_even s (i # rest) tot =
     (if length s \<le> i then Inl IndexError
      else case py_int (PStr [s ! i]) of
        Inl e \<Rightarrow> Inl e
      | Inr d \<Rightarrow> vat_loop_even s rest (tot + d))"

fun vat_loop_odd :: "string \<Rightarrow> nat list \<Rightarrow> int \<Rightarrow> error + int" where
  "vat_loop_odd s [] tot = Inr tot"
| "vat_loop_odd s (i # rest) tot =
     (if length s \<le> i then Inl IndexError
      else case py_int (PStr [s ! i]) of
        Inl e \<Rightarrow> Inl e
      | Inr d \<Rightarrow>
          (let quotient = (d * 2) div 10; remainder = (d * 2) mod 10
           in vat_loop_odd s rest (tot + (quotient + remainder))))"

definition vat_number_check_digit :: "pyval \<Rightarrow> error + string" where
  "vat_number_check_digit vat_number =
     (case smart_text vat_number of
        Inl e \<Rightarrow> Inl e
      | Inr text \<Rightarrow>
          (let normalized_vat_number = zfill 10 text in
           case vat_loop_even normalized_vat_number [0, 2, 4, 6, 8] 0 of
             Inl e \<Rightarrow> Inl e
           | Inr tot1 \<Rightarrow>
               (case vat_loop_odd normalized_vat_number [1, 3, 5, 7, 9] tot1 of
                  Inl e \<Rightarrow> Inl e
                | Inr tot \<Rightarrow> smart_text (PInt ((10 - tot mod 10) mod 10)))))"

definition vat_number_validation :: "pyval \<Rightarrow> error + string" where
  "vat_number_validation raw =
     (case py_int raw of
        Inl e \<Rightarrow> Inl e
      | Inr n \<Rightarrow>
          (case py_str n of
             Inl e \<Rightarrow> Inl e
           | Inr text \<Rightarrow>
               (let vat_number = zfill 11 text in
                case vat_number_check_digit (PStr (slice 0 10 vat_number)) of
                  Inl e \<Rightarrow> Inl e
                | Inr check_digit \<Rightarrow>
                    if length vat_number \<le> 10 then Inl IndexError
                    else if [vat_number ! 10] \<noteq> check_digit then Inl ChecksumMismatchError
                    else smart_text (PStr vat_number))))"

section \<open>The specification's reference data\<close>

text \<open>The alphabet of the check digit: the digits and the capital letters A to Z.\<close>

definition in_0_9A_Z :: "char \<Rightarrow> bool" where
  "in_0_9A_Z c = cls_match (Alt (Range CHR ''0'' CHR ''9'') (Range CHR ''A'' CHR ''Z'')) c"

text \<open>
  The two weight tables as the specification lists them, for a character of the
  alphabet: the weights of 0..9, then the weights of A..Z, read by position.
\<close>

definition spec_odd_table :: "char \<Rightarrow> int" where
  "spec_odd_table c =
     (if is_digit c then [1, 0, 5, 7, 9, 13, 15, 17, 19, 21] ! (py_ord c - 48)
      else [1, 0, 5, 7, 9, 13, 15, 17, 19, 21, 2, 4, 18, 20, 11, 3, 6, 8, 12, 14, 16, 10,
            22, 25, 24, 23] ! (py_ord c - 65))"

definition spec_even_table :: "char \<Rightarrow> int" where
  "spec_even_table c =
     (if is_digit c then [0, 1, 2, 3, 4, 5, 6, 7, 8, 9] ! (py_ord c - 48)
      else [0, 1, 2, 3, 4, 5, 6, 7, 8, 9, 10, 11, 12, 13, 14, 15, 16, 17, 18, 19, 20, 21,
            22, 23, 24, 25] ! (py_ord c - 65))"

text \<open>
  The weight of the character at the 0-based index \<open>i\<close>, and the sum of the weights of
  the first 15 characters.
\<close>

definition spec_weight :: "string \<Rightarrow> nat \<Rightarrow> int" where
  "spec_weight ssn i = (if i mod 2 = 0 then spec_odd_table (ssn ! i) else spec_even_table (ssn ! i))"

definition spec_weighted_sum :: "string \<Rightarrow> int" where
  "spec_weighted_sum ssn = sum_list (map (spec_weight ssn) [0..<15])"

text \<open>
  The sum of the VAT scheme over a text of ten digits: the digits at the even indices,
  and for each digit \<open>d\<close> at an odd index \<open>(2d div 10) + (2d mod 10)\<close>.
\<close>

definition spec_vat_sum :: "string \<Rightarrow> int" where
  "spec_vat_sum z =
     sum_list (map (\<lambda>i. int (digit_val (z ! i))) [0, 2, 4, 6, 8]) +
     sum_list (map (\<lambda>i. (2 * int (digit_val (z ! i))) div 10 + (2 * int (digit_val (z ! i))) mod 10)
                 [1, 3, 5, 7, 9])"

definition all_digits :: "string \<Rightarrow> bool" where
  "all_digits s = list_all is_digit s"

section \<open>Characters and the weight tables\<close>

lemma py_chr_ord: "py_chr (py_ord c) = c"
  by (simp add: py_chr_def py_ord_def)

lemma digit_cases:
  assumes "is_digit c"
  shows "c \<in> set ''0123456789''"
proof -
  define n where "n = py_ord c"
  have c: "c = py_chr n" by (simp add: n_def py_chr_ord)
  from assms have "n = 48 \<or> n = 49 \<or> n = 50 \<or> n = 51 \<or> n = 52 \<or> n = 53 \<or> n = 54 \<or> n = 55 \<or> n = 56 \<or> n = 57"
    unfolding is_digit_def n_def by arith
  then show ?thesis
    unfolding c by (elim disjE) (simp_all add: py_chr_def char_of_def bit_0)
qed

lemma upper_cases:
  assumes "65 \<le> py_ord c" "py_ord c \<le> 90"
  shows "c \<in> set ''ABCDEFGHIJKLMNOPQRSTUVWXYZ''"
proof -
  define n where "n = py_ord c"
  have c: "c = py_chr n" by (simp add: n_def py_chr_ord)
  from assms have "n = 65 \<or> n = 66 \<or> n = 67 \<or> n = 68 \<or> n = 69 \<or> n = 70 \<or> n = 71 \<or> n = 72 \<or> n = 73 \<or> n = 74
     \<or> n = 75 \<or> n = 76 \<or> n = 77 \<or> n = 78 \<or> n = 79 \<or> n = 80 \<or> n = 81 \<or> n = 82 \<or> n = 83 \<or> n = 84
     \<or> n = 85 \<or> n = 86 \<or> n = 87 \<or> n = 88 \<or> n = 89 \<or> n = 90"
    unfolding n_def by arith
  then show ?thesis
    unfolding c by (elim disjE) (simp_all add: py_chr_def char_of_def bit_0)
qed

lemma alphabet_split:
  "''0123456789ABCDEFGHIJKLMNOPQRSTUVWXYZ'' = ''0123456789'' @ ''ABCDEFGHIJKLMNOPQRSTUVWXYZ''"
  by simp

lemma alphabet_enum:
  "c \<in> set ''0123456789ABCDEFGHIJKLMNOPQRSTUVWXYZ'' \<longleftrightarrow>
   (c = CHR ''0'' \<or> c = CHR ''1'' \<or> c = CHR ''2'' \<or> c = CHR ''3'' \<or> c = CHR ''4'' \<or> c = CHR ''5''
    \<or> c = CHR ''6'' \<or> c = CHR ''7'' \<or> c = CHR ''8'' \<or> c = CHR ''9'' \<or> c = CHR ''A'' \<or> c = CHR ''B''
    \<or> c = CHR ''C'' \<or> c = CHR ''D'' \<or> c = CHR ''E'' \<or> c = CHR ''F'' \<or> c = CHR ''G'' \<or> c = CHR ''H''
    \<or> c = CHR ''I'' \<or> c = CHR ''J'' \<or> c = CHR ''K'' \<or> c = CHR ''L'' \<or> c = CHR ''M'' \<or> c = CHR ''N''
    \<or> c = CHR ''O'' \<or> c = CHR ''P'' \<or> c = CHR ''Q'' \<or> c = CHR ''R'' \<or> c = CHR ''S'' \<or> c = CHR ''T''
    \<or> c = CHR ''U'' \<or> c = CHR ''V'' \<or> c = CHR ''W'' \<or> c = CHR ''X'' \<or> c = CHR ''Y'' \<or> c = CHR ''Z'')"
  by simp

lemma in_0_9A_Z_iff: "in_0_9A_Z c \<longleftrightarrow> c \<in> set ''0123456789ABCDEFGHIJKLMNOPQRSTUVWXYZ''"
proof
  assume "in_0_9A_Z c"
  then have "is_digit c \<or> (65 \<le> py_ord c \<and> py_ord c \<le> 90)"
    by (simp add: in_0_9A_Z_def is_digit_def py_ord_def)
  then have "c \<in> set ''0123456789'' \<or> c \<in> set ''ABCDEFGHIJKLMNOPQRSTUVWXYZ''"
    using digit_cases [of c] upper_cases [of c] by blast
  then show "c \<in> set ''0123456789ABCDEFGHIJKLMNOPQRSTUVWXYZ''"
    unfolding alphabet_split set_append Un_iff .
next
  assume "c \<in> set ''0123456789ABCDEFGHIJKLMNOPQRSTUVWXYZ''"
  then show "in_0_9A_Z c"
    unfolding alphabet_enum
    by (elim disjE) (simp_all add: in_0_9A_Z_def py_ord_def)
qed

lemma odd_chars_allowed: "in_0_9A_Z c \<Longrightarrow> ssn_odd_chars c = Some (spec_odd_table c)"
  unfolding in_0_9A_Z_iff alphabet_enum
  by (elim disjE) (simp_all add: ssn_odd_chars_def spec_odd_table_def is_digit_def py_ord_def)

lemma even_chars_allowed: "in_0_9A_Z c \<Longrightarrow> ssn_even_chars c = Some (spec_even_table c)"
  unfolding in_0_9A_Z_iff alphabet_enum
  by (elim disjE) (simp_all add: ssn_even_chars_def spec_even_table_def is_digit_def py_ord_def)

lemma odd_chars_not_allowed: "\<not> in_0_9A_Z c \<Longrightarrow> ssn_odd_chars c = None"
  unfolding in_0_9A_Z_iff alphabet_enum
  by (simp add: ssn_odd_chars_def)

lemma even_chars_not_allowed: "\<not> in_0_9A_Z c \<Longrightarrow> ssn_even_chars c = None"
  unfolding in_0_9A_Z_iff alphabet_enum
  by (simp add: ssn_even_chars_def)

lemma upper_char_allowed: "in_0_9A_Z c \<Longrightarrow> upper_char c = [c]"
  unfolding in_0_9A_Z_iff alphabet_enum
  by (elim disjE) (simp_all add: upper_char_def py_ord_def)

section \<open>The check digit loop\<close>

lemma ssn_lookup_weight:
  assumes "in_0_9A_Z (ssn ! i)"
  shows "(if i mod 2 = 0 then ssn_odd_chars else ssn_even_chars) (ssn ! i) = Some (spec_weight ssn i)"
  using assms by (simp add: odd_chars_allowed even_chars_allowed spec_weight_def)

lemma ssn_lookup_none:
  assumes "\<not> in_0_9A_Z (ssn ! i)"
  shows "(if i mod 2 = 0 then ssn_odd_chars else ssn_even_chars) (ssn ! i) = None"
  using assms by (simp add: odd_chars_not_allowed even_chars_not_allowed)

lemma ssn_loop_step:
  assumes "i < length ssn" and "in_0_9A_Z (ssn ! i)"
  shows "ssn_loop ssn (i # rest) tot = ssn_loop ssn rest (tot + spec_weight ssn i)"
  using assms(1) ssn_lookup_weight [OF assms(2)]
  by (simp only: ssn_loop.simps) simp

lemma ssn_loop_sum:
  assumes "\<forall>i\<in>set idx. i < length ssn \<and> in_0_9A_Z (ssn ! i)"
  shows "ssn_loop ssn idx tot = Inr (tot + sum_list (map (spec_weight ssn) idx))"
  using assms
proof (induction idx arbitrary: tot)
  case Nil
  then show ?case by simp
next
  case (Cons i rest)
  then have i: "i < length ssn" "in_0_9A_Z (ssn ! i)" by simp_all
  from Cons have rest: "ssn_loop ssn rest (tot + spec_weight ssn i)
      = Inr (tot + spec_weight ssn i + sum_list (map (spec_weight ssn) rest))"
    by simp
  show ?case
    by (simp only: ssn_loop_step [OF i] rest) simp
qed

lemma ssn_loop_first_bad:
  assumes "\<forall>i\<in>set pre. i < length ssn \<and> in_0_9A_Z (ssn ! i)"
    and "j < length ssn" and "\<not> in_0_9A_Z (ssn ! j)"
  shows "ssn_loop ssn (pre @ j # post) tot = Inl (InvalidCharacterError (not_allowed_msg (ssn ! j)))"
  using assms
proof (induction pre arbitrary: tot)
  case Nil
  then show ?case
    using ssn_lookup_none [of ssn j] by (simp only: append_Nil ssn_loop.simps) simp
next
  case (Cons i pre)
  then have i: "i < length ssn" "in_0_9A_Z (ssn ! i)" by simp_all
  have "ssn_loop ssn ((i # pre) @ j # post) tot
      = ssn_loop ssn (pre @ j # post) (tot + spec_weight ssn i)"
    by (simp only: append_Cons ssn_loop_step [OF i])
  also have "\<dots> = Inl (InvalidCharacterError (not_allowed_msg (ssn ! j)))"
    using Cons by simp
  finally show ?case .
qed

lemma ssn_check_digits_nth:
  assumes "k < 26"
  shows "ssn_check_digits ! k = [py_chr (65 + k)]"
proof -
  have len: "k < length [65..<91::nat]" using assms by (simp only: length_upt)
  have "65 + k < 91" using assms by simp
  then have nth: "[65..<91] ! k = 65 + k" by (rule nth_upt)
  show ?thesis
    by (simp only: ssn_check_digits_def nth_map [OF len] nth)
qed

lemma mod_26_bounds: "0 \<le> (t::int) mod 26 \<and> nat (t mod 26) < 26"
  by simp

lemma ssn_check_digit_sum:
  assumes "15 \<le> length (upper v)" and "\<forall>i<15. in_0_9A_Z (upper v ! i)"
  shows "ssn_check_digit v = Inr [py_chr (65 + nat (spec_weighted_sum (upper v) mod 26))]"
proof -
  have "\<forall>i\<in>set [0..<15]. i < length (upper v) \<and> in_0_9A_Z (upper v ! i)"
    using assms by simp
  then have "ssn_loop (upper v) [0..<15] 0 = Inr (spec_weighted_sum (upper v))"
    unfolding spec_weighted_sum_def by (simp only: ssn_loop_sum) simp
  then show ?thesis
    using mod_26_bounds [of "spec_weighted_sum (upper v)"]
    by (simp add: ssn_check_digit_def Let_def ssn_check_digits_nth)
qed

lemma upper_append: "upper (xs @ ys) = upper xs @ upper ys"
  by (simp add: upper_def)

lemma upper_allowed: "list_all in_0_9A_Z s \<Longrightarrow> upper s = s"
  by (induction s) (simp_all add: upper_def upper_char_allowed)

lemma upper_prefix:
  assumes "n \<le> length s" and "\<forall>i<n. in_0_9A_Z (s ! i)"
  shows "n \<le> length (upper s) \<and> (\<forall>i<n. upper s ! i = s ! i)"
proof -
  have "list_all in_0_9A_Z (take n s)"
    using assms by (simp add: list_all_length)
  then have u: "upper (take n s) = take n s" by (rule upper_allowed)
  have "upper s = upper (take n s @ drop n s)" by simp
  also have "\<dots> = take n s @ upper (drop n s)" by (simp only: upper_append u)
  finally have eq: "upper s = take n s @ upper (drop n s)" .
  have len: "length (take n s) = n" using assms by simp
  show ?thesis
  proof (intro conjI allI impI)
    show "n \<le> length (upper s)" using len by (simp add: eq)
  next
    fix i assume "i < n"
    then show "upper s ! i = s ! i" using len by (simp add: eq nth_append)
  qed
qed

lemma spec_weighted_sum_cong:
  assumes "\<forall>i<15. a ! i = b ! i"
  shows "spec_weighted_sum a = spec_weighted_sum b"
proof -
  have "map (spec_weight a) [0..<15] = map (spec_weight b) [0..<15]"
    using assms by (intro map_cong refl) (simp add: spec_weight_def)
  then show ?thesis by (simp only: spec_weighted_sum_def)
qed

lemma ssn_check_digit_prefix:
  assumes "15 \<le> length code" and "\<forall>i<15. in_0_9A_Z (code ! i)"
  shows "ssn_check_digit code = Inr [py_chr (65 + nat (spec_weighted_sum code mod 26))]"
proof -
  from upper_prefix [OF assms]
  have len: "15 \<le> length (upper code)" and same: "\<forall>i<15. upper code ! i = code ! i"
    by simp_all
  have ok: "\<forall>i<15. in_0_9A_Z (upper code ! i)" using same assms(2) by simp
  have "spec_weighted_sum (upper code) = spec_weighted_sum code"
    using same by (rule spec_weighted_sum_cong)
  then show ?thesis using ssn_check_digit_sum [OF len ok] by simp
qed

lemma ssn_validation_result:
  assumes "ssn_check_digit code = Inr cd" and "15 < length code"
  shows "ssn_validation code = (if [code ! 15] \<noteq> cd then Inl ChecksumMismatchError else Inr code)"
  using assms by (simp add: ssn_validation_def)

section \<open>Claims about the fiscal code's check digit\<close>

text \<open>
  Claim C1. Let \<open>ssn\<close> be the upper-cased input. When \<open>ssn\<close> has at least 15
  characters and each of the first 15 is a digit or a capital letter A-Z,
  \<open>ssn_check_digit\<close> returns the one-letter text \<open>chr(65 + (sum mod 26))\<close>, where
  \<open>sum\<close> adds, for each index \<open>i\<close> from 0 to 14, the weight of \<open>ssn[i]\<close> in the
  specification's odd-position table when \<open>i\<close> is even and in its even-position table
  when \<open>i\<close> is odd.
\<close>

theorem C1_ssn_check_digit_weighted_sum:
  assumes "15 \<le> length (upper v)" and "\<forall>i<15. in_0_9A_Z (upper v ! i)"
  shows "ssn_check_digit v = Inr [py_chr (65 + nat (spec_weighted_sum (upper v) mod 26))]"
  using assms by (rule ssn_check_digit_sum)

lemma upper_example: "upper ''rccmnl83s18d969h'' = ''RCCMNL83S18D969H''"
  by (simp add: upper_def upper_char_def py_ord_def py_chr_def char_of_def bit_0)

lemma upt_0_15: "[0..<15] = [0, 1, 2, 3, 4, 5, 6, 7, 8, 9, 10, 11, 12, 13, 14 :: nat]"
  by code_simp

lemma weighted_sum_example: "spec_weighted_sum ''RCCMNL83S18D969H'' = 163"
  by (simp add: spec_weighted_sum_def upt_0_15 spec_weight_def spec_odd_table_def
      spec_even_table_def is_digit_def py_ord_def)

theorem C1_witness:
  "15 \<le> length (upper ''rccmnl83s18d969h'')
   \<and> list_all in_0_9A_Z (take 15 (upper ''rccmnl83s18d969h''))
   \<and> ssn_check_digit ''rccmnl83s18d969h'' = Inr ''H''"
proof -
  have h1: "15 \<le> length (upper ''rccmnl83s18d969h'')"
    by (simp add: upper_example)
  have la: "list_all in_0_9A_Z (take 15 (upper ''rccmnl83s18d969h''))"
    by (simp add: upper_example in_0_9A_Z_def py_ord_def)
  have h2: "\<forall>i<15. in_0_9A_Z (upper ''rccmnl83s18d969h'' ! i)"
    using la h1 by (simp add: list_all_length)
  have "ssn_check_digit ''rccmnl83s18d969h'' = Inr ''H''"
    using C1_ssn_check_digit_weighted_sum [OF h1 h2]
    by (simp add: upper_example weighted_sum_example py_chr_def char_of_def bit_0)
  with h1 la show ?thesis by simp
qed

lemma ssn_check_digit_letter:
  "65 \<le> py_ord (py_chr (65 + nat ((t::int) mod 26))) \<and> py_ord (py_chr (65 + nat (t mod 26))) \<le> 90"
proof -
  have b: "nat (t mod 26) < 26" by simp
  then have "65 + nat (t mod 26) < 256" by simp
  then have "py_ord (py_chr (65 + nat (t mod 26))) = 65 + nat (t mod 26)"
    by (simp add: py_ord_def py_chr_def)
  with b show ?thesis by simp
qed

lemma ssn_check_digit_first_bad:
  assumes "j < 15" and "j < length (upper v)" and "\<not> in_0_9A_Z (upper v ! j)"
    and "\<forall>k<j. in_0_9A_Z (upper v ! k)"
  shows "ssn_check_digit v = Inl (InvalidCharacterError (not_allowed_msg (upper v ! j)))"
proof -
  have split: "[0..<15] = [0..<j] @ j # [Suc j..<15]"
    using assms(1) by (metis less_imp_le_nat upt_add_eq_append upt_conv_Cons le0 le_add_diff_inverse plus_nat.add_0)
  have pre: "\<forall>i\<in>set [0..<j]. i < length (upper v) \<and> in_0_9A_Z (upper v ! i)"
    using assms(2,4) by simp
  have "ssn_loop (upper v) [0..<15] 0 = Inl (InvalidCharacterError (not_allowed_msg (upper v ! j)))"
    by (simp only: split ssn_loop_first_bad [OF pre assms(2,3)])
  then show ?thesis by (simp add: ssn_check_digit_def Let_def)
qed

lemma of_char_eq_iff:
  assumes "n < 256"
  shows "(of_char c :: nat) = n \<longleftrightarrow> c = char_of n"
proof
  assume "(of_char c :: nat) = n"
  then have "char_of (of_char c :: nat) = (char_of n :: char)" by simp
  then show "c = char_of n" by simp
next
  assume "c = char_of n"
  then show "(of_char c :: nat) = n" using assms by simp
qed

lemma not_allowed_msg_spelled:
  "not_allowed_msg c =
     map of_char ''Character '' @
     [39, (if c = CHR 0xB5 then 924 else if c = CHR 0xFF then 376 else of_char c), 39] @
     map of_char '' is not allowed.''"
proof -
  have "(of_char c :: nat) = 181 \<longleftrightarrow> c = CHR 0xB5"
    by (simp add: of_char_eq_iff char_of_def bit_0)
  moreover have "(of_char c :: nat) = 255 \<longleftrightarrow> c = CHR 0xFF"
    by (simp add: of_char_eq_iff char_of_def bit_0)
  ultimately show ?thesis
    by (simp add: not_allowed_msg_def upper_code_point_def py_ord_def)
qed

text \<open>
  Claim C7. \<open>ssn_check_digit\<close> is a function of its input. On every text of 15
  characters that are digits or capital letters A-Z it returns a result, a single letter
  from A to Z, so the error branch is not reached. Whenever one of the first 15
  characters of the upper-cased input is not a digit or a capital letter A-Z, it fails
  with the invalid-character error whose message is
  \<open>Character 'c' is not allowed.\<close>, where \<open>c\<close> is the first such character: the
  message is given by its code points, and the two characters 0xB5 and 0xFF of the
  model's upper-cased text are the code points 924 (0x39C) and 376 (0x178).
\<close>

theorem C7_ssn_check_digit_total_or_invalid_character:
  "(length s = 15 \<and> list_all in_0_9A_Z s \<longrightarrow>
      (\<exists>l. ssn_check_digit s = Inr [l] \<and> 65 \<le> py_ord l \<and> py_ord l \<le> 90))
   \<and> ((\<exists>i<15. i < length (upper v) \<and> \<not> in_0_9A_Z (upper v ! i)) \<longrightarrow>
      (\<exists>j<15. j < length (upper v) \<and> \<not> in_0_9A_Z (upper v ! j)
          \<and> (\<forall>k<j. in_0_9A_Z (upper v ! k))
          \<and> ssn_check_digit v = Inl (InvalidCharacterError
               (map of_char ''Character '' @
                [39, (if upper v ! j = CHR 0xB5 then 924
                      else if upper v ! j = CHR 0xFF then 376
                      else of_char (upper v ! j)), 39] @
                map of_char '' is not allowed.''))))"
proof (intro conjI impI)
  assume a: "length s = 15 \<and> list_all in_0_9A_Z s"
  then have "15 \<le> length s" and "\<forall>i<15. in_0_9A_Z (s ! i)"
    by (simp_all add: list_all_length)
  then have "ssn_check_digit s = Inr [py_chr (65 + nat (spec_weighted_sum s mod 26))]"
    by (rule ssn_check_digit_prefix)
  then show "\<exists>l. ssn_check_digit s = Inr [l] \<and> 65 \<le> py_ord l \<and> py_ord l \<le> 90"
    using ssn_check_digit_letter [of "spec_weighted_sum s"] by blast
next
  let ?bad = "\<lambda>i. i < 15 \<and> i < length (upper v) \<and> \<not> in_0_9A_Z (upper v ! i)"
  assume "\<exists>i<15. i < length (upper v) \<and> \<not> in_0_9A_Z (upper v ! i)"
  then obtain i where i: "?bad i" by blast
  define j where "j = (LEAST i. ?bad i)"
  have j: "?bad j" unfolding j_def using i by (rule LeastI)
  have least: "\<forall>k<j. in_0_9A_Z (upper v ! k)"
  proof (intro allI impI)
    fix k assume kj: "k < j"
    then have "\<not> ?bad k" unfolding j_def by (rule not_less_Least)
    moreover have "k < 15" "k < length (upper v)" using kj j by simp_all
    ultimately show "in_0_9A_Z (upper v ! k)" by blast
  qed
  have "ssn_check_digit v = Inl (InvalidCharacterError (not_allowed_msg (upper v ! j)))"
    using j least by (intro ssn_check_digit_first_bad) simp_all
  then have "ssn_check_digit v = Inl (InvalidCharacterError
               (map of_char ''Character '' @
                [39, (if upper v ! j = CHR 0xB5 then 924
                      else if upper v ! j = CHR 0xFF then 376
                      else of_char (upper v ! j)), 39] @
                map of_char '' is not allowed.''))"
    by (simp only: not_allowed_msg_spelled)
  with j least show "\<exists>j<15. j < length (upper v) \<and> \<not> in_0_9A_Z (upper v ! j)
          \<and> (\<forall>k<j. in_0_9A_Z (upper v ! k))
          \<and> ssn_check_digit v = Inl (InvalidCharacterError
               (map of_char ''Character '' @
                [39, (if upper v ! j = CHR 0xB5 then 924
                      else if upper v ! j = CHR 0xFF then 376
                      else of_char (upper v ! j)), 39] @
                map of_char '' is not allowed.''))"
    by blast
qed

lemma upper_bad_example: "upper ''r!'' = ''R!''"
  by (simp add: upper_def upper_char_def py_ord_def py_chr_def char_of_def bit_0)

lemma upper_micro_example:
  "upper ([CHR ''R'', CHR ''C'', CHR 0xB5, CHR ''M'', CHR ''N'', CHR ''L'', CHR ''8'', CHR ''3'',
      CHR ''S'', CHR ''1'', CHR ''8'', CHR ''D'', CHR ''9'', CHR ''6'', CHR ''9'', CHR ''H'']) = [CHR ''R'', CHR ''C'', CHR 0xB5, CHR ''M'', CHR ''N'', CHR ''L'', CHR ''8'', CHR ''3'',
      CHR ''S'', CHR ''1'', CHR ''8'', CHR ''D'', CHR ''9'', CHR ''6'', CHR ''9'', CHR ''H'']"
  by (simp add: upper_def upper_char_def py_ord_def py_chr_def char_of_def bit_0)

theorem C7_witness:
  "(length ''RCCMNL83S18D969'' = 15 \<and> list_all in_0_9A_Z ''RCCMNL83S18D969'')
   \<and> (\<exists>l. ssn_check_digit ''RCCMNL83S18D969'' = Inr [l] \<and> 65 \<le> py_ord l \<and> py_ord l \<le> 90)
   \<and> (\<exists>i<15. i < length (upper ''r!'') \<and> \<not> in_0_9A_Z (upper ''r!'' ! i))
   \<and> ssn_check_digit ''r!'' =
       Inl (InvalidCharacterError
         [67, 104, 97, 114, 97, 99, 116, 101, 114, 32, 39, 33, 39, 32, 105, 115, 32, 110, 111,
          116, 32, 97, 108, 108, 111, 119, 101, 100, 46])
   \<and> ssn_check_digit ([CHR ''R'', CHR ''C'', CHR 0xB5, CHR ''M'', CHR ''N'', CHR ''L'', CHR ''8'', CHR ''3'',
      CHR ''S'', CHR ''1'', CHR ''8'', CHR ''D'', CHR ''9'', CHR ''6'', CHR ''9'', CHR ''H'']) =
       Inl (InvalidCharacterError
         [67, 104, 97, 114, 97, 99, 116, 101, 114, 32, 39, 924, 39, 32, 105, 115, 32, 110, 111,
          116, 32, 97, 108, 108, 111, 119, 101, 100, 46])"
proof -
  note inst = C7_ssn_check_digit_total_or_invalid_character [of "''RCCMNL83S18D969''" "''r!''"]
  have h1: "length ''RCCMNL83S18D969'' = 15 \<and> list_all in_0_9A_Z ''RCCMNL83S18D969''"
    by (simp add: in_0_9A_Z_def py_ord_def)
  have c1: "\<exists>l. ssn_check_digit ''RCCMNL83S18D969'' = Inr [l] \<and> 65 \<le> py_ord l \<and> py_ord l \<le> 90"
    using inst h1 by blast
  have h2: "\<exists>i<15. i < length (upper ''r!'') \<and> \<not> in_0_9A_Z (upper ''r!'' ! i)"
    by (rule exI [of _ 1]) (simp add: upper_bad_example in_0_9A_Z_def py_ord_def)
  from inst h2 obtain j where j: "j < length (upper ''r!'')" "\<not> in_0_9A_Z (upper ''r!'' ! j)"
    and res: "ssn_check_digit ''r!'' = Inl (InvalidCharacterError
               (map of_char ''Character '' @
                [39, (if upper ''r!'' ! j = CHR 0xB5 then 924
                      else if upper ''r!'' ! j = CHR 0xFF then 376
                      else of_char (upper ''r!'' ! j)), 39] @
                map of_char '' is not allowed.''))"
    by blast
  from j(1) have "j = 0 \<or> j = 1" by (simp add: upper_bad_example) arith
  moreover have "in_0_9A_Z (upper ''r!'' ! 0)"
    by (simp add: upper_bad_example in_0_9A_Z_def py_ord_def)
  ultimately have "j = 1" using j(2) by blast
  with res have c2: "ssn_check_digit ''r!'' =
       Inl (InvalidCharacterError
         [67, 104, 97, 114, 97, 99, 116, 101, 114, 32, 39, 33, 39, 32, 105, 115, 32, 110, 111,
          116, 32, 97, 108, 108, 111, 119, 101, 100, 46])"
    by (simp add: upper_bad_example)
  let ?w = "[CHR ''R'', CHR ''C'', CHR 0xB5, CHR ''M'', CHR ''N'', CHR ''L'', CHR ''8'', CHR ''3'',
      CHR ''S'', CHR ''1'', CHR ''8'', CHR ''D'', CHR ''9'', CHR ''6'', CHR ''9'', CHR ''H'']"
  note inst2 = C7_ssn_check_digit_total_or_invalid_character [of "''RCCMNL83S18D969''" ?w]
  have bad2: "\<not> in_0_9A_Z (upper ?w ! 2)"
    by (simp add: upper_micro_example in_0_9A_Z_def py_ord_def)
  have h3: "\<exists>i<15. i < length (upper ?w) \<and> \<not> in_0_9A_Z (upper ?w ! i)"
    using bad2 by (intro exI [of _ 2]) (simp add: upper_micro_example)
  from inst2 h3 obtain m where m: "\<not> in_0_9A_Z (upper ?w ! m)"
    and least: "\<forall>k<m. in_0_9A_Z (upper ?w ! k)"
    and res2: "ssn_check_digit ?w = Inl (InvalidCharacterError
               (map of_char ''Character '' @
                [39, (if upper ?w ! m = CHR 0xB5 then 924
                      else if upper ?w ! m = CHR 0xFF then 376
                      else of_char (upper ?w ! m)), 39] @
                map of_char '' is not allowed.''))"
    by blast
  have "\<not> 2 < m" using least bad2 by blast
  then have "m = 0 \<or> m = 1 \<or> m = 2" by arith
  moreover have "in_0_9A_Z (upper ?w ! 0)" "in_0_9A_Z (upper ?w ! 1)"
    by (simp_all add: upper_micro_example in_0_9A_Z_def py_ord_def)
  ultimately have "m = 2" using m by blast
  with res2 have c3: "ssn_check_digit ?w =
       Inl (InvalidCharacterError
         [67, 104, 97, 114, 97, 99, 116, 101, 114, 32, 39, 924, 39, 32, 105, 115, 32, 110, 111,
          116, 32, 97, 108, 108, 111, 119, 101, 100, 46])"
    by (simp add: upper_micro_example)
  from h1 c1 h2 c2 c3 show ?thesis by blast
qed

lemma list_all_take_nth:
  assumes "list_all P (take n s)" and "n \<le> length s"
  shows "\<forall>i<n. P (s ! i)"
  using assms by (simp add: list_all_length)

text \<open>
  Claim C4. For every code of 16 characters whose first 15 are digits or capital letters
  A-Z, \<open>ssn_validation\<close> returns the code unchanged exactly when its 16th character is
  the check digit \<open>ssn_check_digit\<close> computes for the code, and raises the checksum
  mismatch error exactly when it is not; so replacing the last character of an accepted
  code by any other character makes \<open>ssn_validation\<close> raise.
\<close>

theorem C4_ssn_validation_checks_last_character:
  assumes "length code = 16" and "\<forall>i<15. in_0_9A_Z (code ! i)"
  shows "(ssn_validation code = Inr code \<longleftrightarrow> ssn_check_digit code = Inr [code ! 15])
       \<and> (ssn_validation code = Inl ChecksumMismatchError \<longleftrightarrow> ssn_check_digit code \<noteq> Inr [code ! 15])
       \<and> (ssn_validation code = Inr code \<and> l \<noteq> code ! 15 \<longrightarrow>
            ssn_validation (code[15 := l]) = Inl ChecksumMismatchError)"
proof -
  define cd where "cd = [py_chr (65 + nat (spec_weighted_sum code mod 26))]"
  have len: "15 \<le> length code" "15 < length code" using assms(1) by simp_all
  have check: "ssn_check_digit code = Inr cd"
    unfolding cd_def using len(1) assms(2) by (rule ssn_check_digit_prefix)
  have val: "ssn_validation code = (if [code ! 15] \<noteq> cd then Inl ChecksumMismatchError else Inr code)"
    using check len(2) by (rule ssn_validation_result)
  let ?code' = "code[15 := l]"
  have len': "15 \<le> length ?code'" "15 < length ?code'" using assms(1) by simp_all
  have same: "\<forall>i<15. ?code' ! i = code ! i" by simp
  have ok': "\<forall>i<15. in_0_9A_Z (?code' ! i)" using assms(2) by simp
  have "spec_weighted_sum ?code' = spec_weighted_sum code"
    using same by (rule spec_weighted_sum_cong)
  then have check': "ssn_check_digit ?code' = Inr cd"
    unfolding cd_def using ssn_check_digit_prefix [OF len'(1) ok'] by simp
  have val': "ssn_validation ?code' = (if [?code' ! 15] \<noteq> cd then Inl ChecksumMismatchError else Inr ?code')"
    using check' len'(2) by (rule ssn_validation_result)
  have last': "?code' ! 15 = l" using len(2) by simp
  show ?thesis
  proof (intro conjI impI)
    show "ssn_validation code = Inr code \<longleftrightarrow> ssn_check_digit code = Inr [code ! 15]"
      by (auto simp add: val check)
    show "ssn_validation code = Inl ChecksumMismatchError \<longleftrightarrow> ssn_check_digit code \<noteq> Inr [code ! 15]"
      by (auto simp add: val check)
    assume "ssn_validation code = Inr code \<and> l \<noteq> code ! 15"
    then have "[code ! 15] = cd" and "l \<noteq> code ! 15"
      by (auto simp add: val split: if_splits)
    then have "[l] \<noteq> cd" by auto
    then show "ssn_validation ?code' = Inl ChecksumMismatchError"
      by (simp add: val' last')
  qed
qed

theorem C4_witness:
  "length ''RCCMNL83S18D969H'' = 16
   \<and> list_all in_0_9A_Z (take 15 ''RCCMNL83S18D969H'')
   \<and> ssn_check_digit ''RCCMNL83S18D969H'' = Inr ''H''
   \<and> ssn_validation ''RCCMNL83S18D969H'' = Inr ''RCCMNL83S18D969H''
   \<and> ssn_validation ''RCCMNL83S18D969K'' = Inl ChecksumMismatchError"
proof -
  have h1: "length ''RCCMNL83S18D969H'' = 16" by simp
  have la: "list_all in_0_9A_Z (take 15 ''RCCMNL83S18D969H'')"
    by (simp add: in_0_9A_Z_def py_ord_def)
  have h2: "\<forall>i<15. in_0_9A_Z (''RCCMNL83S18D969H'' ! i)"
    by (rule list_all_take_nth [OF la]) simp
  note inst = C4_ssn_validation_checks_last_character [OF h1 h2, of "CHR ''K''"]
  have cd: "ssn_check_digit ''RCCMNL83S18D969H'' = Inr ''H''"
    using ssn_check_digit_prefix [of "''RCCMNL83S18D969H''"] h2
    by (simp add: weighted_sum_example py_chr_def char_of_def bit_0)
  have last: "''RCCMNL83S18D969H'' ! 15 = CHR ''H''" by simp
  have v: "ssn_validation ''RCCMNL83S18D969H'' = Inr ''RCCMNL83S18D969H''"
    using inst cd by (simp only: last) 
  have upd: "''RCCMNL83S18D969H''[15 := CHR ''K''] = ''RCCMNL83S18D969K''" by simp
  have "ssn_validation (''RCCMNL83S18D969H''[15 := CHR ''K'']) = Inl ChecksumMismatchError"
    using inst v by (simp only: last) simp
  then have w: "ssn_validation ''RCCMNL83S18D969K'' = Inl ChecksumMismatchError"
    by (simp only: upd)
  from h1 la cd v w show ?thesis by blast
qed

section \<open>Claims about the syntax check and the decoded fields\<close>

lemma match_items_Cons_Some:
  "match_items ((k, n) # items) s = Some r \<longleftrightarrow>
     n \<le> length s \<and> list_all (cls_match k) (take n s) \<and> match_items items (drop n s) = Some r"
  by auto

lemma list_all_take_drop_nth:
  assumes "list_all P (take n (drop a s))" and "a + n \<le> length s" and "i < n"
  shows "P (s ! (a + i))"
  using assms by (simp add: list_all_length)

lemma ssn_isvalid_fields:
  assumes "ssn_isvalid (PStr s)"
  shows "16 \<le> length s \<and> is_digit (s ! 6) \<and> is_digit (s ! 7) \<and> s ! 8 \<in> set ''ABCDEHLMPRST''
     \<and> is_digit (s ! 9) \<and> is_digit (s ! 10) \<and> at_dollar (drop 16 s)"
proof -
  from assms obtain r where r: "match_items PATTERN s = Some r" and d: "at_dollar r"
    by (auto simp add: ssn_isvalid_def re_match_def split: option.splits)
  from r have
    a: "8 \<le> length s" "list_all (cls_match (Range CHR ''0'' CHR ''9'')) (take 2 (drop 6 s))"
    and b: "9 \<le> length s" "list_all (cls_match (OneOf ''ABCDEHLMPRST'')) (take 1 (drop 8 s))"
    and c: "11 \<le> length s" "list_all (cls_match (Range CHR ''0'' CHR ''9'')) (take 2 (drop 9 s))"
    and e: "16 \<le> length s" "r = drop 16 s"
    unfolding PATTERN_def match_items_Cons_Some match_items.simps(1)
    by (auto simp add: add.commute)
  have a': "6 + 2 \<le> length s" and b': "8 + 1 \<le> length s" and c': "9 + 2 \<le> length s"
    using a(1) b(1) c(1) by simp_all
  have "cls_match (Range CHR ''0'' CHR ''9'') (s ! (6 + 0))"
    by (rule list_all_take_drop_nth [OF a(2) a']) simp
  moreover have "cls_match (Range CHR ''0'' CHR ''9'') (s ! (6 + 1))"
    by (rule list_all_take_drop_nth [OF a(2) a']) simp
  ultimately have d6: "is_digit (s ! 6)" "is_digit (s ! 7)"
    by (simp_all add: is_digit_def py_ord_def)
  have "cls_match (OneOf ''ABCDEHLMPRST'') (s ! (8 + 0))"
    by (rule list_all_take_drop_nth [OF b(2) b']) simp
  then have m8: "s ! 8 \<in> set ''ABCDEHLMPRST''"
    by (simp only: cls_match.simps add_0_right)
  have "cls_match (Range CHR ''0'' CHR ''9'') (s ! (9 + 0))"
    by (rule list_all_take_drop_nth [OF c(2) c']) simp
  moreover have "cls_match (Range CHR ''0'' CHR ''9'') (s ! (9 + 1))"
    by (rule list_all_take_drop_nth [OF c(2) c']) simp
  ultimately have d9: "is_digit (s ! 9)" "is_digit (s ! 10)"
    by (simp_all add: is_digit_def py_ord_def)
  from d6 m8 d9 e d show ?thesis by blast
qed


lemma digit_not_space_sign:
  assumes "is_digit c"
  shows "\<not> is_space c \<and> c \<noteq> CHR ''-'' \<and> c \<noteq> CHR ''+'' \<and> c \<noteq> CHR ''_''"
  using assms by (auto simp add: is_digit_def is_space_def py_ord_def)

lemma strip_no_space:
  assumes "s \<noteq> []" and "\<not> is_space (hd s)" and "\<not> is_space (last s)"
  shows "strip s = s"
proof -
  have "dropWhile is_space s = s"
    using assms(1,2) by (cases s) simp_all
  moreover have "dropWhile is_space (rev s) = rev s"
    using assms(1,3) by (cases "rev s") (simp_all add: last_rev [symmetric] hd_rev)
  ultimately show ?thesis by (simp add: strip_def)
qed

lemma py_int_str_digits:
  assumes "list_all is_digit s" and "s \<noteq> []" and "length s \<le> int_max_str_digits"
    and "digits_val s 0 = Some v"
  shows "py_int_str s = Inr (int v)"
proof -
  obtain c cs where s: "s = c # cs" using assms(2) by (cases s) simp_all
  have ends: "is_digit (hd s)" "is_digit (last s)"
    using assms(1,2) by (simp_all add: list_all_iff)
  have st: "strip (c # cs) = c # cs"
    unfolding s [symmetric] using assms(2) ends digit_not_space_sign
    by (intro strip_no_space) simp_all
  have c: "is_digit c" using ends(1) by (simp add: s)
  have sign: "c \<noteq> CHR ''-''" "c \<noteq> CHR ''+''"
    using digit_not_space_sign [OF c] by simp_all
  have "\<forall>d\<in>set (c # cs). is_digit d \<or> d = CHR ''_''"
    using assms(1) by (simp add: s list_all_iff)
  then have run: "takeWhile (\<lambda>d. is_digit d \<or> d = CHR ''_'') (c # cs) = c # cs"
    by (simp only: takeWhile_eq_all_conv)
  have "filter is_digit (c # cs) = c # cs"
    using assms(1) by (simp only: s filter_id_conv list_all_iff)
  then have cnt: "count_digits (c # cs) = length (c # cs)"
    by (simp only: count_digits_def)
  have body: "int_body (c # cs) = Some v"
    using c assms(4) by (simp add: int_body_def s)
  have lim: "\<not> int_max_str_digits < length (c # cs)"
    using assms(3) by (simp only: s not_less)
  show ?thesis
    unfolding s py_int_str_def st
    by (simp only: list.case sign if_False simp_thms Let_def run body option.case cnt lim)
qed

lemma py_int_str_two_digits:
  assumes "is_digit a" and "is_digit b"
  shows "py_int_str [a, b] = Inr (int (10 * digit_val a + digit_val b))"
proof -
  have "digits_val [a, b] 0 = Some (10 * digit_val a + digit_val b)"
    using assms by simp
  moreover have "length [a, b] \<le> int_max_str_digits"
    by (simp add: int_max_str_digits_def)
  ultimately show ?thesis
    using assms by (intro py_int_str_digits) simp_all
qed

lemma slice_two:
  assumes "a + 2 \<le> length s"
  shows "slice a (a + 2) s = [s ! a, s ! (a + 1)]"
proof -
  have "take 2 (drop a s) = [drop a s ! 0, drop a s ! 1]"
    using assms by (intro nth_equalityI) (auto simp add: less_Suc_eq numeral_2_eq_2)
  then show ?thesis using assms by (simp add: slice_def)
qed

lemma ssn_day_field:
  assumes "ssn_isvalid (PStr s)"
  shows "py_int (PStr (slice 9 11 s)) = Inr (int (10 * digit_val (s ! 9) + digit_val (s ! 10)))"
proof -
  from ssn_isvalid_fields [OF assms]
  have len: "16 \<le> length s" and d: "is_digit (s ! 9)" "is_digit (s ! 10)" by simp_all
  have "slice 9 (9 + 2) s = [s ! 9, s ! (9 + 1)]"
    using len by (intro slice_two) simp
  then have "slice 9 11 s = [s ! 9, s ! 10]" by simp
  then show ?thesis
    using py_int_str_two_digits [OF d] by (simp add: py_int_def)
qed

text \<open>
  Claim C8. For every code that \<open>ssn_isvalid\<close> accepts, the text at the 1-indexed
  positions 10-11 is read as a two-digit integer, and \<open>ssn_get_sex\<close> returns \<open>'M'\<close> when
  that integer is less than 32 and \<open>'F'\<close> otherwise, never another value; it returns
  \<open>'M'\<close> for RCCMNL83S18D969H and \<open>'F'\<close> for CNTCHR83T41D969D.
\<close>

theorem C8_ssn_get_sex_by_day_field:
  assumes "ssn_isvalid (PStr s)"
  shows "py_int (PStr (slice 9 11 s)) = Inr (int (10 * digit_val (s ! 9) + digit_val (s ! 10)))
     \<and> ssn_get_sex (PStr s) = Inr (if 10 * digit_val (s ! 9) + digit_val (s ! 10) < 32 then ''M'' else ''F'')
     \<and> (ssn_get_sex (PStr s) = Inr ''M'' \<or> ssn_get_sex (PStr s) = Inr ''F'')
     \<and> ssn_get_sex (PStr ''RCCMNL83S18D969H'') = Inr ''M''
     \<and> ssn_get_sex (PStr ''CNTCHR83T41D969D'') = Inr ''F''"
proof -
  note day = ssn_day_field [OF assms]
  have sex: "ssn_get_sex (PStr s) = Inr (if 10 * digit_val (s ! 9) + digit_val (s ! 10) < 32 then ''M'' else ''F'')"
    using assms by (simp add: ssn_get_sex_def day)
  have ex1: "ssn_get_sex (PStr ''RCCMNL83S18D969H'') = Inr ''M''"
    by (simp add: ssn_get_sex_def ssn_isvalid_def re_match_def PATTERN_def at_dollar_def
        py_ord_def slice_def py_int_def py_int_str_def count_digits_def int_max_str_digits_def Let_def strip_def is_space_def int_body_def
        is_digit_def digit_val_def)
  have ex2: "ssn_get_sex (PStr ''CNTCHR83T41D969D'') = Inr ''F''"
    by (simp add: ssn_get_sex_def ssn_isvalid_def re_match_def PATTERN_def at_dollar_def
        py_ord_def slice_def py_int_def py_int_str_def count_digits_def int_max_str_digits_def Let_def strip_def is_space_def int_body_def
        is_digit_def digit_val_def)
  from sex have "ssn_get_sex (PStr s) = Inr ''M'' \<or> ssn_get_sex (PStr s) = Inr ''F''"
    by (simp split: if_splits)
  with day sex ex1 ex2 show ?thesis by blast
qed

lemma ssn_isvalid_female_example: "ssn_isvalid (PStr ''CNTCHR83T41D969D'')"
  by (simp add: ssn_isvalid_def re_match_def PATTERN_def at_dollar_def py_ord_def)

theorem C8_witness:
  "ssn_isvalid (PStr ''CNTCHR83T41D969D'')
   \<and> py_int (PStr (slice 9 11 ''CNTCHR83T41D969D'')) = Inr 41
   \<and> ssn_get_sex (PStr ''CNTCHR83T41D969D'') = Inr ''F''"
  using C8_ssn_get_sex_by_day_field [OF ssn_isvalid_female_example] ssn_isvalid_female_example
  by (simp add: digit_val_def py_ord_def)


text \<open>
  Claim C3, evaluated where the code departs from it. The claim lets \<open>ssn_isvalid\<close> hold
  only for a text of exactly 16 characters. The code accepts RCCMNL83S18D969H, and it
  also accepts the 17 characters made of that code and a final line feed, since \<open>$\<close>
  matches just before a line feed that ends the text.
\<close>

theorem C3_final_line_feed_accepted:
  "ssn_isvalid (PStr ''RCCMNL83S18D969H'')
   \<and> ssn_isvalid (PStr (''RCCMNL83S18D969H'' @ [CHR 0x0A]))
   \<and> length (''RCCMNL83S18D969H'' @ [CHR 0x0A]) = 17"
  by (simp add: ssn_isvalid_def re_match_def PATTERN_def at_dollar_def py_ord_def)

text \<open>
  Claim C2, evaluated where the code departs from it. The claim subtracts 40 from the
  day only when it is greater than 31. For the accepted code RCCMNL83S00D969H the day
  field is 00, the expression \<open>day < 32 and day or day - 40\<close> takes its last branch
  because 0 is falsy, and \<open>ssn_get_birthday\<close> returns -40/11/83 where the claim gives
  00/11/83. The claim's own example RCCMNL83S18D969H gives 18/11/83.
\<close>

theorem C2_day_zero_birthday:
  "ssn_isvalid (PStr ''RCCMNL83S00D969H'')
   \<and> ssn_get_birthday (PStr ''RCCMNL83S00D969H'') = Inr ''-40/11/83''
   \<and> ssn_get_birthday (PStr ''RCCMNL83S18D969H'') = Inr ''18/11/83''"
  by (simp add: ssn_get_birthday_def ssn_isvalid_def re_match_def PATTERN_def at_dollar_def
      py_ord_def slice_def py_int_def py_int_str_def count_digits_def int_max_str_digits_def Let_def strip_def is_space_def int_body_def
      is_digit_def digit_val_def MONTHSCODE_def format_02d_def zfill_def py_str_def decimal_repr_def
      digit_char_def py_chr_def char_of_def bit_0)

section \<open>Decimal digits\<close>

declare digits_of.simps [simp del]

lemma digit_char_props:
  assumes "d < 10"
  shows "is_digit (digit_char d) \<and> digit_val (digit_char d) = d"
proof -
  have "48 + d < 256" using assms by simp
  then have "py_ord (py_chr (48 + d)) = 48 + d"
    by (simp add: py_ord_def py_chr_def)
  then show ?thesis using assms by (simp add: is_digit_def digit_val_def digit_char_def)
qed

lemma digit_char_0: "digit_char 0 = CHR ''0''"
  by (simp add: digit_char_def py_chr_def char_of_def bit_0)

lemma is_digit_0: "is_digit CHR ''0''" and digit_val_0: "digit_val CHR ''0'' = 0"
  by (simp_all add: is_digit_def digit_val_def py_ord_def)

lemma digit_val_lt: "is_digit c \<Longrightarrow> digit_val c < 10"
  by (auto simp add: is_digit_def digit_val_def)

lemma digits_of_all_digits: "all_digits (digits_of n)"
proof (induction n rule: digits_of.induct)
  case (1 n)
  show ?case
  proof (cases "n < 10")
    case True
    then show ?thesis
      by (subst digits_of.simps) (simp add: all_digits_def digit_char_props)
  next
    case False
    have "n mod 10 < 10" by simp
    then have "is_digit (digit_char (n mod 10))" by (simp add: digit_char_props)
    moreover have "all_digits (digits_of (n div 10))" using False by (rule "1.IH")
    ultimately show ?thesis
      using False by (subst digits_of.simps) (simp add: all_digits_def)
  qed
qed

lemma digits_of_nonempty: "digits_of n \<noteq> []"
  by (subst digits_of.simps) simp

lemma digits_val_snoc:
  assumes "all_digits xs" and "is_digit c"
  shows "digits_val (xs @ [c]) acc = map_option (\<lambda>v. 10 * v + digit_val c) (digits_val xs acc)"
  using assms
proof (induction xs arbitrary: acc)
  case Nil
  then show ?case by simp
next
  case (Cons x xs)
  then show ?case by (simp add: all_digits_def)
qed

lemma digits_val_digits_of: "digits_val (digits_of n) 0 = Some n"
proof (induction n rule: digits_of.induct)
  case (1 n)
  show ?case
  proof (cases "n < 10")
    case True
    then show ?thesis
      by (subst digits_of.simps) (simp add: digit_char_props)
  next
    case False
    have d: "is_digit (digit_char (n mod 10))" "digit_val (digit_char (n mod 10)) = n mod 10"
      by (simp_all add: digit_char_props)
    have ih: "digits_val (digits_of (n div 10)) 0 = Some (n div 10)"
      using False by (rule "1.IH")
    have "digits_of n = digits_of (n div 10) @ [digit_char (n mod 10)]"
      using False by (subst digits_of.simps) simp
    then show ?thesis
      by (simp add: digits_val_snoc [OF digits_of_all_digits d(1)] ih d(2))
  qed
qed

lemma digits_val_leading_zeros:
  "digits_val (replicate k CHR ''0'' @ s) 0 = digits_val s 0"
  by (induction k) (simp_all add: is_digit_0 digit_val_0)

lemma all_digits_append: "all_digits (xs @ ys) \<longleftrightarrow> all_digits xs \<and> all_digits ys"
  by (simp add: all_digits_def)

lemma all_digits_zeros: "all_digits (replicate k CHR ''0'')"
  by (simp add: all_digits_def list_all_length is_digit_0)

lemma all_digits_nth: "all_digits s \<Longrightarrow> i < length s \<Longrightarrow> is_digit (s ! i)"
  by (simp add: all_digits_def list_all_length)

lemma strip_all_digits:
  assumes "all_digits s"
  shows "strip s = s"
proof (cases "s = []")
  case True
  then show ?thesis by (simp add: strip_def)
next
  case False
  then have "is_digit (hd s)" "is_digit (last s)"
    using assms by (simp_all add: all_digits_def list_all_iff)
  then show ?thesis
    using False digit_not_space_sign by (intro strip_no_space) simp_all
qed

lemma py_int_str_padded:
  assumes "length (replicate k CHR ''0'' @ digits_of n) \<le> int_max_str_digits"
  shows "py_int_str (replicate k CHR ''0'' @ digits_of n) = Inr (int n)"
proof -
  have "all_digits (replicate k CHR ''0'' @ digits_of n)"
    by (simp add: all_digits_append all_digits_zeros digits_of_all_digits)
  then have a: "list_all is_digit (replicate k CHR ''0'' @ digits_of n)"
    by (simp only: all_digits_def)
  have b: "replicate k CHR ''0'' @ digits_of n \<noteq> []"
    by (simp add: digits_of_nonempty)
  have v: "digits_val (replicate k CHR ''0'' @ digits_of n) 0 = Some n"
    by (simp only: digits_val_leading_zeros digits_val_digits_of)
  show ?thesis
    using a b assms v by (rule py_int_str_digits)
qed

lemma zfill_all_digits:
  assumes "all_digits s"
  shows "zfill w s = replicate (w - length s) CHR ''0'' @ s"
proof (cases s)
  case Nil
  then show ?thesis by (simp add: zfill_def)
next
  case (Cons c cs)
  then have "is_digit c" using assms by (simp add: all_digits_def)
  then have "c \<noteq> CHR ''+''" "c \<noteq> CHR ''-''" using digit_not_space_sign by simp_all
  then show ?thesis by (simp add: zfill_def Cons)
qed

lemma digits_of_length_le:
  assumes "n < 10 ^ k" and "0 < k"
  shows "length (digits_of n) \<le> k"
  using assms
proof (induction k arbitrary: n)
  case 0
  then show ?case by simp
next
  case (Suc k)
  show ?case
  proof (cases "n < 10")
    case True
    then show ?thesis by (subst digits_of.simps) simp
  next
    case False
    then have k: "0 < k" using Suc.prems(1) by (cases k) simp_all
    have "n div 10 < 10 ^ k" using Suc.prems(1) by (simp add: less_mult_imp_div_less mult.commute)
    then have "length (digits_of (n div 10)) \<le> k" using k by (rule Suc.IH)
    then show ?thesis using False by (subst digits_of.simps) simp
  qed
qed

lemma digits_of_length_gt:
  assumes "10 ^ k \<le> n"
  shows "k < length (digits_of n)"
  using assms
proof (induction k arbitrary: n)
  case 0
  then show ?case using digits_of_nonempty [of n] by (cases "digits_of n") simp_all
next
  case (Suc k)
  then have ge: "10 \<le> n"
    by (metis (no_types) One_nat_def le_trans mult.right_neutral mult_le_mono2 one_le_numeral one_le_power power_Suc)
  have "10 ^ k \<le> n div 10" using Suc.prems by (simp add: less_eq_div_iff_mult_less_eq mult.commute)
  then have "k < length (digits_of (n div 10))" by (rule Suc.IH)
  then show ?case using ge by (subst digits_of.simps) simp
qed

section \<open>The VAT check digit\<close>

lemma py_int_digit:
  assumes "is_digit c"
  shows "py_int (PStr [c]) = Inr (int (digit_val c))"
proof -
  have "digits_val [c] 0 = Some (digit_val c)" using assms by simp
  moreover have "length [c] \<le> int_max_str_digits" by (simp add: int_max_str_digits_def)
  ultimately have "py_int_str [c] = Inr (int (digit_val c))"
    using assms by (intro py_int_str_digits) simp_all
  then show ?thesis by (simp add: py_int_def)
qed

lemma vat_loop_even_sum:
  assumes "\<forall>i\<in>set idx. i < length z \<and> is_digit (z ! i)"
  shows "vat_loop_even z idx tot = Inr (tot + sum_list (map (\<lambda>i. int (digit_val (z ! i))) idx))"
  using assms
proof (induction idx arbitrary: tot)
  case Nil
  then show ?case by simp
next
  case (Cons i rest)
  then have i: "i < length z" "is_digit (z ! i)" by simp_all
  have step: "vat_loop_even z (i # rest) tot = vat_loop_even z rest (tot + int (digit_val (z ! i)))"
    using i(1) by (simp add: py_int_digit [OF i(2)])
  show ?case
    using Cons by (simp only: step) simp
qed

lemma vat_loop_odd_sum:
  assumes "\<forall>i\<in>set idx. i < length z \<and> is_digit (z ! i)"
  shows "vat_loop_odd z idx tot =
     Inr (tot + sum_list (map (\<lambda>i. (2 * int (digit_val (z ! i))) div 10 + (2 * int (digit_val (z ! i))) mod 10) idx))"
  using assms
proof (induction idx arbitrary: tot)
  case Nil
  then show ?case by simp
next
  case (Cons i rest)
  then have i: "i < length z" "is_digit (z ! i)" by simp_all
  have step: "vat_loop_odd z (i # rest) tot =
      vat_loop_odd z rest (tot + ((2 * int (digit_val (z ! i))) div 10 + (2 * int (digit_val (z ! i))) mod 10))"
    using i(1) by (simp add: py_int_digit [OF i(2)] Let_def mult.commute)
  show ?case
    using Cons by (simp only: step) simp
qed

lemma py_str_within:
  assumes "length (digits_of (nat \<bar>n\<bar>)) \<le> int_max_str_digits"
  shows "py_str n = Inr (decimal_repr n)"
  using assms by (simp add: py_str_def)

lemma py_str_beyond:
  assumes "int_max_str_digits < length (digits_of (nat \<bar>n\<bar>))"
  shows "py_str n = Inl DigitLimitError"
  using assms by (simp add: py_str_def)

lemma smart_text_digit:
  assumes "0 \<le> k" and "k < 10"
  shows "smart_text (PInt k) = Inr [digit_char (nat k)]"
  using assms
  by (simp add: smart_text_def py_str_def decimal_repr_def int_max_str_digits_def digits_of.simps)

lemma vat_check_digit_of_digits:
  assumes "z = zfill 10 s" and "10 \<le> length z" and "\<forall>i<10. is_digit (z ! i)"
  shows "vat_number_check_digit (PStr s) =
     Inr [digit_char (nat ((10 - spec_vat_sum z mod 10) mod 10))]"
proof -
  have ev: "\<forall>i\<in>set [0, 2, 4, 6, 8]. i < length z \<and> is_digit (z ! i)"
    using assms(2,3) by auto
  have od: "\<forall>i\<in>set [1, 3, 5, 7, 9]. i < length z \<and> is_digit (z ! i)"
    using assms(2,3) by auto
  have k: "0 \<le> (10 - spec_vat_sum z mod 10) mod 10" "(10 - spec_vat_sum z mod 10) mod 10 < 10"
    by simp_all
  have st_s: "smart_text (PStr s) = Inr s" by (simp add: smart_text_def)
  have "vat_number_check_digit (PStr s) = smart_text (PInt ((10 - spec_vat_sum z mod 10) mod 10))"
    unfolding vat_number_check_digit_def Let_def
    by (simp only: st_s sum.case assms(1) [symmetric] vat_loop_even_sum [OF ev]
        vat_loop_odd_sum [OF od] sum.case spec_vat_sum_def add_0)
  then show ?thesis by (simp only: smart_text_digit [OF k])
qed

lemma vat_check_digit_ten_digits:
  assumes "10 \<le> length z" and "\<forall>i<10. is_digit (z ! i)"
  shows "vat_number_check_digit (PStr z) =
     Inr [digit_char (nat ((10 - spec_vat_sum z mod 10) mod 10))]"
proof -
  have "z = zfill 10 z" using assms(1) by (simp add: zfill_def)
  then show ?thesis using assms by (rule vat_check_digit_of_digits)
qed

lemma vat_example_sum: "spec_vat_sum ''1234567001'' = 33"
  by (simp add: spec_vat_sum_def digit_val_def py_ord_def)

lemma vat_example_digits: "10 \<le> length ''1234567001'' \<and> (\<forall>i<10. is_digit (''1234567001'' ! i))"
proof -
  have "all_digits ''1234567001''" by (simp add: all_digits_def is_digit_def py_ord_def)
  then show ?thesis using all_digits_nth by auto
qed

lemma vat_example_check_digit: "vat_number_check_digit (PStr ''1234567001'') = Inr ''7''"
  using vat_check_digit_ten_digits [of "''1234567001''"] vat_example_digits
  by (simp add: vat_example_sum digit_char_def py_chr_def char_of_def bit_0)

lemma digits_of_example: "digits_of 12345670017 = ''12345670017''"
  by (simp add: digits_of.simps digit_char_def py_chr_def char_of_def bit_0)

lemma py_int_example: "py_int (PStr ''12345670017'') = Inr 12345670017"
  by (simp add: py_int_def py_int_str_def count_digits_def int_max_str_digits_def Let_def strip_def is_space_def int_body_def is_digit_def
      digit_val_def py_ord_def)

lemma vat_example_validation: "vat_number_validation (PStr ''12345670017'') = Inr ''12345670017''"
  by (simp add: vat_number_validation_def py_int_example py_str_def decimal_repr_def
      int_max_str_digits_def digits_of_example zfill_def slice_def vat_example_check_digit
      smart_text_def)

text \<open>
  Claim C5. For every text of at most ten digits, \<open>vat_number_check_digit\<close> pads it
  with zeros on the left to ten digits and returns the digit character
  \<open>(10 - (S mod 10)) mod 10\<close>, where \<open>S\<close> adds the digits at the even 0-based indices and,
  for each digit \<open>d\<close> at an odd index, \<open>(2d div 10) + (2d mod 10)\<close>. For 1234567001 the
  digit is 7, and \<open>vat_number_validation\<close> accepts 12345670017.
\<close>

theorem C5_vat_check_digit_formula:
  assumes "all_digits s" and "length s \<le> 10"
  shows "vat_number_check_digit (PStr s) =
       Inr [digit_char (nat ((10 - spec_vat_sum (replicate (10 - length s) CHR ''0'' @ s) mod 10) mod 10))]
     \<and> vat_number_check_digit (PStr ''1234567001'') = Inr ''7''
     \<and> vat_number_validation (PStr ''12345670017'') = Inr ''12345670017''"
proof -
  define z where "z = replicate (10 - length s) CHR ''0'' @ s"
  have z: "z = zfill 10 s" unfolding z_def using assms(1) by (simp only: zfill_all_digits)
  have len: "10 \<le> length z" using assms(2) by (simp add: z_def)
  have "all_digits z" using assms(1) by (simp add: z_def all_digits_append all_digits_zeros)
  then have dig: "\<forall>i<10. is_digit (z ! i)" using len all_digits_nth by auto
  have "vat_number_check_digit (PStr s) = Inr [digit_char (nat ((10 - spec_vat_sum z mod 10) mod 10))]"
    using z len dig by (rule vat_check_digit_of_digits)
  then show ?thesis
    unfolding z_def using vat_example_check_digit vat_example_validation by blast
qed

theorem C5_witness:
  "all_digits ''1234567'' \<and> length ''1234567'' \<le> 10
   \<and> spec_vat_sum ''0001234567'' = 26
   \<and> vat_number_check_digit (PStr ''1234567'') = Inr ''4''"
proof -
  have h1: "all_digits ''1234567''" by (simp add: all_digits_def is_digit_def py_ord_def)
  have h2: "length ''1234567'' \<le> 10" by simp
  have pad: "replicate (10 - length ''1234567'') CHR ''0'' @ ''1234567'' = ''0001234567''"
    by (simp add: numeral_3_eq_3)
  have sum: "spec_vat_sum ''0001234567'' = 26"
    by (simp add: spec_vat_sum_def digit_val_def py_ord_def)
  have "vat_number_check_digit (PStr ''1234567'') = Inr ''4''"
    using C5_vat_check_digit_formula [OF h1 h2]
    by (simp only: pad sum) (simp add: digit_char_def py_chr_def char_of_def bit_0)
  with h1 h2 sum show ?thesis by blast
qed

section \<open>The VAT number validation\<close>

lemma py_int_minus: "py_int (PStr ''-'') = Inl (FormatError ''-'')"
  by (simp add: py_int_def py_int_str_def count_digits_def int_max_str_digits_def Let_def strip_def is_space_def py_ord_def int_body_def)

lemma zfill_minus:
  "\<exists>r. zfill w (CHR ''-'' # ds) = CHR ''-'' # r \<and> w \<le> length (CHR ''-'' # r)"
  by (simp add: zfill_def)

lemma vat_check_digit_minus:
  assumes "10 \<le> length (CHR ''-'' # r)"
  shows "vat_number_check_digit (PStr (CHR ''-'' # r)) = Inl (FormatError ''-'')"
proof -
  have "zfill 10 (CHR ''-'' # r) = CHR ''-'' # r"
    using assms by (simp add: zfill_def)
  then show ?thesis
    by (simp add: vat_number_check_digit_def smart_text_def py_int_minus)
qed

lemma vat_validation_unparsable:
  assumes "py_int raw = Inl e"
  shows "vat_number_validation raw = Inl e"
  using assms by (simp add: vat_number_validation_def)

lemma vat_validation_beyond:
  assumes "py_int raw = Inr n" and "int_max_str_digits < length (digits_of (nat \<bar>n\<bar>))"
  shows "vat_number_validation raw = Inl DigitLimitError"
  using assms(1) py_str_beyond [OF assms(2)] by (simp add: vat_number_validation_def)

lemma vat_validation_negative:
  assumes "py_int raw = Inr n" and "n < 0"
    and "length (digits_of (nat \<bar>n\<bar>)) \<le> int_max_str_digits"
  shows "vat_number_validation raw = Inl (FormatError ''-'')"
proof -
  have str: "py_str n = Inr (decimal_repr n)" using assms(3) by (rule py_str_within)
  have "decimal_repr n = CHR ''-'' # digits_of (nat (- n))"
    using assms(2) by (simp add: decimal_repr_def)
  then obtain r where r: "zfill 11 (decimal_repr n) = CHR ''-'' # r" "11 \<le> length (CHR ''-'' # r)"
    using zfill_minus [of 11 "digits_of (nat (- n))"] by auto
  have sl: "slice 0 10 (CHR ''-'' # r) = CHR ''-'' # take 9 r"
    by (simp add: slice_def)
  have "10 \<le> length (CHR ''-'' # take 9 r)" using r(2) by simp
  then have "vat_number_check_digit (PStr (CHR ''-'' # take 9 r)) = Inl (FormatError ''-'')"
    by (rule vat_check_digit_minus)
  then show ?thesis
    using assms(1) by (simp add: vat_number_validation_def str Let_def r(1) sl)
qed

lemma normalized_nonneg:
  assumes "0 \<le> n"
  shows "zfill 11 (decimal_repr n) =
       replicate (11 - length (digits_of (nat n))) CHR ''0'' @ digits_of (nat n)
     \<and> all_digits (zfill 11 (decimal_repr n)) \<and> 11 \<le> length (zfill 11 (decimal_repr n))"
proof -
  have s: "decimal_repr n = digits_of (nat n)" using assms by (simp add: decimal_repr_def)
  have z: "zfill 11 (decimal_repr n) =
      replicate (11 - length (digits_of (nat n))) CHR ''0'' @ digits_of (nat n)"
    unfolding s using digits_of_all_digits by (rule zfill_all_digits)
  have "all_digits (zfill 11 (decimal_repr n))"
    unfolding z by (simp add: all_digits_append all_digits_zeros digits_of_all_digits)
  moreover have "11 \<le> length (zfill 11 (decimal_repr n))"
    unfolding z by simp
  ultimately show ?thesis using z by blast
qed

lemma vat_validation_nonneg:
  assumes "py_int raw = Inr n" and "0 \<le> n"
    and "length (digits_of (nat \<bar>n\<bar>)) \<le> int_max_str_digits"
  shows "vat_number_check_digit (PStr (slice 0 10 (zfill 11 (decimal_repr n)))) =
       Inr [digit_char (nat ((10 - spec_vat_sum (slice 0 10 (zfill 11 (decimal_repr n))) mod 10) mod 10))]
     \<and> vat_number_validation raw =
       (if zfill 11 (decimal_repr n) ! 10
           \<noteq> digit_char (nat ((10 - spec_vat_sum (slice 0 10 (zfill 11 (decimal_repr n))) mod 10) mod 10))
        then Inl ChecksumMismatchError else Inr (zfill 11 (decimal_repr n)))"
proof -
  define v where "v = zfill 11 (decimal_repr n)"
  have str: "py_str n = Inr (decimal_repr n)" using assms(3) by (rule py_str_within)
  from normalized_nonneg [OF assms(2)]
  have dig: "all_digits v" and len: "11 \<le> length v" unfolding v_def by blast+
  have sl: "slice 0 10 v = take 10 v" by (simp add: slice_def)
  have l10: "10 \<le> length (take 10 v)" using len by simp
  have d10: "\<forall>i<10. is_digit (take 10 v ! i)"
    using dig len all_digits_nth by auto
  have cd: "vat_number_check_digit (PStr (slice 0 10 v)) =
      Inr [digit_char (nat ((10 - spec_vat_sum (slice 0 10 v) mod 10) mod 10))]"
    unfolding sl using l10 d10 by (rule vat_check_digit_ten_digits)
  have "vat_number_validation raw =
      (if v ! 10 \<noteq> digit_char (nat ((10 - spec_vat_sum (slice 0 10 v) mod 10) mod 10))
       then Inl ChecksumMismatchError else Inr v)"
    using assms(1) len
    by (simp add: vat_number_validation_def str Let_def v_def [symmetric] cd smart_text_def)
  with cd show ?thesis unfolding v_def by blast
qed

lemma vat_validation_cong:
  assumes "py_int a = py_int b"
  shows "vat_number_validation a = vat_number_validation b"
  using assms by (simp add: vat_number_validation_def)

lemma py_int_str_total:
  "(\<exists>lit. py_int_str s = Inl (FormatError lit)) \<or> py_int_str s = Inl DigitLimitError
     \<or> (\<exists>n. py_int_str s = Inr n)"
  by (simp add: py_int_str_def Let_def split: list.splits option.splits)

lemma py_int_total:
  "(\<exists>lit. py_int raw = Inl (FormatError lit)) \<or> py_int raw = Inl DigitLimitError
     \<or> (\<exists>n. py_int raw = Inr n)"
proof (cases raw)
  case (PStr s)
  then show ?thesis using py_int_str_total [of s] by (simp add: py_int_def)
next
  case (PInt n)
  then show ?thesis by (simp add: py_int_def)
qed

lemma strip_length: "length (strip s) \<le> length s"
proof -
  have "length (strip s) \<le> length (dropWhile is_space s)"
    using length_dropWhile_le [of is_space "rev (dropWhile is_space s)"]
    by (simp add: strip_def)
  also have "\<dots> \<le> length s" by (rule length_dropWhile_le)
  finally show ?thesis .
qed

lemma py_int_limit_text:
  assumes "py_int raw = Inl DigitLimitError"
  shows "\<exists>s. raw = PStr s \<and> int_max_str_digits < length s"
proof (cases raw)
  case (PInt n)
  with assms show ?thesis by (simp add: py_int_def)
next
  case (PStr s)
  obtain c cs where st: "strip s = c # cs"
    using assms PStr by (cases "strip s") (simp_all add: py_int_def py_int_str_def)
  define body where "body = (if c = CHR ''-'' \<or> c = CHR ''+'' then cs else c # cs)"
  define run where "run = takeWhile (\<lambda>d. is_digit d \<or> d = CHR ''_'') body"
  have "int_max_str_digits < count_digits run"
    using assms PStr
    by (simp add: py_int_def py_int_str_def st Let_def body_def [symmetric] run_def [symmetric]
        split: option.splits if_splits)
  also have "count_digits run \<le> length run" by (simp add: count_digits_def)
  also have "length run \<le> length body" unfolding run_def by (rule length_takeWhile_le)
  also have "length body \<le> length (strip s)" by (simp add: body_def st)
  also have "\<dots> \<le> length s" by (rule strip_length)
  finally show ?thesis using PStr by simp
qed

lemma power_ten_beyond:
  assumes "int_max_str_digits \<le> k"
  shows "int_max_str_digits < length (digits_of (nat \<bar>10 ^ k\<bar>))
     \<and> k < length (decimal_repr (10 ^ k))
     \<and> vat_number_validation (PInt (10 ^ k)) = Inl DigitLimitError"
proof -
  have n: "nat \<bar>(10::int) ^ k\<bar> = 10 ^ k" by (simp add: nat_power_eq)
  have "k < length (digits_of (10 ^ k))" by (rule digits_of_length_gt) simp
  then have len: "k < length (digits_of (nat \<bar>10 ^ k\<bar>))" by (simp only: n)
  then have beyond: "int_max_str_digits < length (digits_of (nat \<bar>10 ^ k\<bar>))"
    using assms by simp
  have "decimal_repr (10 ^ k) = digits_of (nat \<bar>10 ^ k\<bar>)"
    by (simp add: decimal_repr_def)
  then have "k < length (decimal_repr (10 ^ k))" using len by simp
  moreover have "py_int (PInt (10 ^ k)) = Inr (10 ^ k)" by (simp add: py_int_def)
  then have "vat_number_validation (PInt (10 ^ k)) = Inl DigitLimitError"
    using beyond by (rule vat_validation_beyond)
  ultimately show ?thesis using beyond by blast
qed

section \<open>Claims about the VAT number validation\<close>

lemma py_int_negative_example: "py_int (PStr ''-5'') = Inr (- 5)"
  by (simp add: py_int_def py_int_str_def count_digits_def int_max_str_digits_def Let_def
      strip_def is_space_def int_body_def is_digit_def digit_val_def py_ord_def)

lemma nine_zeros: "replicate 9 CHR ''0'' = ''000000000''"
  by (simp add: eval_nat_numeral)

lemma normalized_negative_example: "zfill 11 (decimal_repr (- 5)) = ''-0000000005''"
  by (simp add: zfill_def decimal_repr_def digits_of.simps digit_char_def py_chr_def char_of_def
      bit_0 nine_zeros)

lemma digits_of_five: "digits_of 5 = ''5''"
  by (simp add: digits_of.simps digit_char_def py_chr_def char_of_def bit_0)

lemma validation_negative_example: "vat_number_validation (PStr ''-5'') = Inl (FormatError ''-'')"
  by (rule vat_validation_negative [OF py_int_negative_example])
    (simp_all add: digits_of_five int_max_str_digits_def)

lemma py_int_padded_example: "py_int (PStr ''0012345670017'') = Inr 12345670017"
  by (simp add: py_int_def py_int_str_def count_digits_def int_max_str_digits_def Let_def
      strip_def is_space_def int_body_def is_digit_def digit_val_def py_ord_def)

lemma decimal_example: "decimal_repr 12345670017 = ''12345670017''"
  by (simp add: decimal_repr_def digits_of_example)

lemma normalized_example: "zfill 11 (decimal_repr 12345670017) = ''12345670017''"
  by (simp add: zfill_def decimal_example)

lemma digits_of_long_example: "digits_of 123456700170 = ''123456700170''"
  by (simp add: digits_of.simps digit_char_def py_chr_def char_of_def bit_0)

lemma decimal_long_example: "decimal_repr 123456700170 = ''123456700170''"
  by (simp add: decimal_repr_def digits_of_long_example)

lemma py_int_long_example: "py_int (PStr ''123456700170'') = Inr 123456700170"
  by (simp add: py_int_def py_int_str_def count_digits_def int_max_str_digits_def Let_def
      strip_def is_space_def int_body_def is_digit_def digit_val_def py_ord_def)

lemma vat_long_example: "vat_number_validation (PStr ''123456700170'') = Inr ''123456700170''"
  by (simp add: vat_number_validation_def py_int_long_example py_str_def decimal_repr_def
      int_max_str_digits_def digits_of_long_example zfill_def slice_def vat_example_check_digit
      smart_text_def)

lemma limit_le_4300: "int_max_str_digits \<le> 4300"
  by (simp add: int_max_str_digits_def)

text \<open>
  Claim C6 as stated fails on the code. The text -5 parses as the integer -5, it is
  normalized to -0000000005, and \<open>vat_number_validation\<close> raises neither the checksum
  error nor returns the normalized text: the check digit computation calls \<open>int('-')\<close>,
  which raises the format error. The text 123456700170 is accepted and returned with
  its 12 digits, so the result is not always an 11-digit text. The integer \<open>10^4300\<close>
  is an integer already, and \<open>str()\<close> refuses its 4301 digits.
\<close>

theorem C6_counterexample:
  "py_int (PStr ''-5'') = Inr (- 5)
   \<and> zfill 11 (decimal_repr (- 5)) = ''-0000000005''
   \<and> vat_number_validation (PStr ''-5'') = Inl (FormatError ''-'')
   \<and> vat_number_validation (PStr ''123456700170'') = Inr ''123456700170''
   \<and> length ''123456700170'' = 12
   \<and> py_int (PInt (10 ^ 4300)) = Inr (10 ^ 4300)
   \<and> vat_number_validation (PInt (10 ^ 4300)) = Inl DigitLimitError"
proof -
  have "py_int (PInt (10 ^ 4300)) = Inr (10 ^ 4300)" by (simp only: py_int_def pyval.case)
  moreover have "vat_number_validation (PInt (10 ^ 4300)) = Inl DigitLimitError"
    using power_ten_beyond [OF limit_le_4300] by blast
  moreover have "length ''123456700170'' = 12" by simp
  ultimately show ?thesis
    using py_int_negative_example normalized_negative_example validation_negative_example
      vat_long_example by blast
qed

text \<open>
  Claim C6, amended. \<open>vat_number_validation\<close> parses its input, a text or an integer, as
  an integer. A failure of the parse is raised as it is: the format error for an
  invalid literal, the digit limit error for a text of more digits than the
  interpreter's limit (4300), which is then a text of more than 4300 characters. For an
  input that parses as \<open>n\<close>: when \<open>n\<close> has more digits than the limit, \<open>str()\<close> raises
  the digit limit error; otherwise, when \<open>n\<close> is negative, the format error is raised;
  otherwise the normalized text is the decimal representation of \<open>n\<close> padded with zeros
  on the left to at least 11 digits, exactly 11 when \<open>n < 10^11\<close>, unchanged and longer
  when \<open>n \<ge> 10^11\<close>, and the function raises the checksum error if and only if
  \<open>normalized[10]\<close> differs from the check digit of \<open>normalized[0:10]\<close>, and otherwise
  returns the normalized text. So the format error is raised if and only if the input
  is an invalid literal or parses as a negative integer within the limit.
\<close>

theorem C6_vat_validation_amended:
  "(py_int raw = Inl e \<longrightarrow>
        vat_number_validation raw = Inl e
        \<and> (e = DigitLimitError \<or> (\<exists>lit. e = FormatError lit))
        \<and> (e = DigitLimitError \<longrightarrow> (\<exists>s. raw = PStr s \<and> int_max_str_digits < length s)))
   \<and> (py_int raw = Inr n \<and> int_max_str_digits < length (digits_of (nat \<bar>n\<bar>)) \<longrightarrow>
        vat_number_validation raw = Inl DigitLimitError)
   \<and> (py_int raw = Inr n \<and> length (digits_of (nat \<bar>n\<bar>)) \<le> int_max_str_digits \<and> n < 0 \<longrightarrow>
        vat_number_validation raw = Inl (FormatError ''-''))
   \<and> (py_int raw = Inr n \<and> length (digits_of (nat \<bar>n\<bar>)) \<le> int_max_str_digits \<and> 0 \<le> n \<longrightarrow>
        zfill 11 (decimal_repr n) = replicate (11 - length (decimal_repr n)) CHR ''0'' @ decimal_repr n
        \<and> all_digits (zfill 11 (decimal_repr n))
        \<and> 11 \<le> length (zfill 11 (decimal_repr n))
        \<and> (n < 10 ^ 11 \<longrightarrow> length (zfill 11 (decimal_repr n)) = 11)
        \<and> (10 ^ 11 \<le> n \<longrightarrow> zfill 11 (decimal_repr n) = decimal_repr n
              \<and> 11 < length (zfill 11 (decimal_repr n)))
        \<and> (\<exists>d. vat_number_check_digit (PStr (slice 0 10 (zfill 11 (decimal_repr n)))) = Inr [d]
              \<and> (vat_number_validation raw = Inl ChecksumMismatchError \<longleftrightarrow>
                   zfill 11 (decimal_repr n) ! 10 \<noteq> d)
              \<and> (zfill 11 (decimal_repr n) ! 10 = d \<longrightarrow>
                   vat_number_validation raw = Inr (zfill 11 (decimal_repr n)))))
   \<and> ((\<exists>lit. vat_number_validation raw = Inl (FormatError lit)) \<longleftrightarrow>
        (\<exists>lit. py_int raw = Inl (FormatError lit))
        \<or> (\<exists>m<0. py_int raw = Inr m \<and> length (digits_of (nat \<bar>m\<bar>)) \<le> int_max_str_digits))"
proof (intro conjI impI)
  assume e: "py_int raw = Inl e"
  show "vat_number_validation raw = Inl e" using e by (rule vat_validation_unparsable)
  show "e = DigitLimitError \<or> (\<exists>lit. e = FormatError lit)"
    using py_int_total [of raw] e by auto
  assume "e = DigitLimitError"
  with e show "\<exists>s. raw = PStr s \<and> int_max_str_digits < length s"
    by (intro py_int_limit_text) simp
next
  assume "py_int raw = Inr n \<and> int_max_str_digits < length (digits_of (nat \<bar>n\<bar>))"
  then have "py_int raw = Inr n" and "int_max_str_digits < length (digits_of (nat \<bar>n\<bar>))"
    by blast+
  then show "vat_number_validation raw = Inl DigitLimitError"
    by (rule vat_validation_beyond)
next
  assume "py_int raw = Inr n \<and> length (digits_of (nat \<bar>n\<bar>)) \<le> int_max_str_digits \<and> n < 0"
  then have "py_int raw = Inr n" and "n < 0"
    and "length (digits_of (nat \<bar>n\<bar>)) \<le> int_max_str_digits"
    by blast+
  then show "vat_number_validation raw = Inl (FormatError ''-'')"
    by (rule vat_validation_negative)
next
  assume a: "py_int raw = Inr n \<and> length (digits_of (nat \<bar>n\<bar>)) \<le> int_max_str_digits \<and> 0 \<le> n"
  then have p: "py_int raw = Inr n" and n: "0 \<le> n"
    and lim: "length (digits_of (nat \<bar>n\<bar>)) \<le> int_max_str_digits" by blast+
  have s: "decimal_repr n = digits_of (nat n)" using n by (simp add: decimal_repr_def)
  note norm = normalized_nonneg [OF n]
  show "zfill 11 (decimal_repr n) = replicate (11 - length (decimal_repr n)) CHR ''0'' @ decimal_repr n"
    using norm by (simp only: s)
  show "all_digits (zfill 11 (decimal_repr n))" using norm by blast
  show "11 \<le> length (zfill 11 (decimal_repr n))" using norm by blast
  show "\<exists>d. vat_number_check_digit (PStr (slice 0 10 (zfill 11 (decimal_repr n)))) = Inr [d]
              \<and> (vat_number_validation raw = Inl ChecksumMismatchError \<longleftrightarrow>
                   zfill 11 (decimal_repr n) ! 10 \<noteq> d)
              \<and> (zfill 11 (decimal_repr n) ! 10 = d \<longrightarrow>
                   vat_number_validation raw = Inr (zfill 11 (decimal_repr n)))"
  proof -
    define v where "v = zfill 11 (decimal_repr n)"
    define d where "d = digit_char (nat ((10 - spec_vat_sum (slice 0 10 v) mod 10) mod 10))"
    from vat_validation_nonneg [OF p n lim]
    have cd: "vat_number_check_digit (PStr (slice 0 10 v)) = Inr [d]"
      and val: "vat_number_validation raw = (if v ! 10 \<noteq> d then Inl ChecksumMismatchError else Inr v)"
      unfolding v_def d_def by blast+
    have "vat_number_validation raw = Inl ChecksumMismatchError \<longleftrightarrow> v ! 10 \<noteq> d"
      by (simp add: val)
    moreover have "v ! 10 = d \<longrightarrow> vat_number_validation raw = Inr v"
      by (simp add: val)
    ultimately show ?thesis
      using cd unfolding v_def by blast
  qed
  {
    assume "n < 10 ^ 11"
    then have "nat n < 10 ^ 11" using n by (simp add: nat_less_iff)
    then have "length (digits_of (nat n)) \<le> 11" by (rule digits_of_length_le) simp
    then show "length (zfill 11 (decimal_repr n)) = 11"
      using norm by (simp add: s)
  }
  {
    assume "10 ^ 11 \<le> n"
    then have "10 ^ 11 \<le> nat n" using n by (simp add: le_nat_iff)
    then have big: "11 < length (digits_of (nat n))" by (rule digits_of_length_gt)
    then show "zfill 11 (decimal_repr n) = decimal_repr n"
      by (simp add: zfill_def s)
    then show "11 < length (zfill 11 (decimal_repr n))" using big by (simp add: s)
  }
next
  show "(\<exists>lit. vat_number_validation raw = Inl (FormatError lit)) \<longleftrightarrow>
        (\<exists>lit. py_int raw = Inl (FormatError lit))
        \<or> (\<exists>m<0. py_int raw = Inr m \<and> length (digits_of (nat \<bar>m\<bar>)) \<le> int_max_str_digits)"
  proof (rule disjE [OF py_int_total [of raw]])
    assume "\<exists>lit. py_int raw = Inl (FormatError lit)"
    then obtain lit where u: "py_int raw = Inl (FormatError lit)" by blast
    then have "vat_number_validation raw = Inl (FormatError lit)"
      by (rule vat_validation_unparsable)
    with u show ?thesis by auto
  next
    assume "py_int raw = Inl DigitLimitError \<or> (\<exists>n. py_int raw = Inr n)"
    then show ?thesis
    proof
      assume u: "py_int raw = Inl DigitLimitError"
      then have "vat_number_validation raw = Inl DigitLimitError"
        by (rule vat_validation_unparsable)
      with u show ?thesis by auto
    next
      assume "\<exists>n. py_int raw = Inr n"
      then obtain m where m: "py_int raw = Inr m" by blast
      show ?thesis
      proof (cases "int_max_str_digits < length (digits_of (nat \<bar>m\<bar>))")
        case True
        with m have "vat_number_validation raw = Inl DigitLimitError"
          by (rule vat_validation_beyond)
        with m True show ?thesis by auto
      next
        case False
        then have lim: "length (digits_of (nat \<bar>m\<bar>)) \<le> int_max_str_digits" by simp
        show ?thesis
        proof (cases "m < 0")
          case True
          then have "vat_number_validation raw = Inl (FormatError ''-'')"
            using m lim by (intro vat_validation_negative)
          with m True lim show ?thesis by auto
        next
          case False
          then have "0 \<le> m" by simp
          from vat_validation_nonneg [OF m this lim]
          have "\<forall>lit. vat_number_validation raw \<noteq> Inl (FormatError lit)"
            by (auto split: if_splits)
          with m False show ?thesis by auto
        qed
      qed
    qed
  qed
qed

theorem C6_witness:
  "py_int (PStr ''0012345670017'') = Inr 12345670017
   \<and> length (digits_of (nat \<bar>12345670017\<bar>)) \<le> int_max_str_digits
   \<and> zfill 11 (decimal_repr 12345670017) = ''12345670017''
   \<and> vat_number_check_digit (PStr (slice 0 10 ''12345670017'')) = Inr ''7''
   \<and> vat_number_validation (PStr ''0012345670017'') = Inr ''12345670017''"
proof -
  have lim: "length (digits_of (nat \<bar>12345670017\<bar>)) \<le> int_max_str_digits"
    by (simp add: digits_of_example int_max_str_digits_def)
  have p: "py_int (PStr ''0012345670017'') = Inr 12345670017
      \<and> length (digits_of (nat \<bar>12345670017\<bar>)) \<le> int_max_str_digits \<and> (0::int) \<le> 12345670017"
    using lim by (simp add: py_int_padded_example)
  have sl: "slice 0 10 ''12345670017'' = ''1234567001''" by (simp add: slice_def)
  have cd: "vat_number_check_digit (PStr (slice 0 10 ''12345670017'')) = Inr ''7''"
    by (simp only: sl vat_example_check_digit)
  from C6_vat_validation_amended [of "PStr ''0012345670017''" _ 12345670017] p
  obtain d where d: "vat_number_check_digit (PStr (slice 0 10 (zfill 11 (decimal_repr 12345670017)))) = Inr [d]"
    and r: "zfill 11 (decimal_repr 12345670017) ! 10 = d \<longrightarrow>
      vat_number_validation (PStr ''0012345670017'') = Inr (zfill 11 (decimal_repr 12345670017))"
    by blast
  from d have "d = CHR ''7''" by (simp add: normalized_example cd)
  with r have "vat_number_validation (PStr ''0012345670017'') = Inr ''12345670017''"
    by (simp add: normalized_example)
  with p cd show ?thesis by (simp add: normalized_example)
qed

text \<open>
  Claim C9. Whenever \<open>vat_number_validation\<close> succeeds on an input and returns the
  normalized text \<open>s\<close>, it succeeds again on \<open>s\<close> and returns \<open>s\<close> itself.
\<close>

theorem C9_vat_validation_idempotent:
  assumes "vat_number_validation raw = Inr s"
  shows "vat_number_validation (PStr s) = Inr s"
proof -
  from py_int_total [of raw] assms obtain n where p: "py_int raw = Inr n"
    by (auto dest: vat_validation_unparsable)
  have lim: "length (digits_of (nat \<bar>n\<bar>)) \<le> int_max_str_digits"
  proof (rule ccontr)
    assume "\<not> length (digits_of (nat \<bar>n\<bar>)) \<le> int_max_str_digits"
    then have "int_max_str_digits < length (digits_of (nat \<bar>n\<bar>))" by simp
    with p have "vat_number_validation raw = Inl DigitLimitError"
      by (rule vat_validation_beyond)
    with assms show False by simp
  qed
  have n: "0 \<le> n"
  proof (rule ccontr)
    assume "\<not> 0 \<le> n"
    then have "n < 0" by simp
    with p have "vat_number_validation raw = Inl (FormatError ''-'')"
      using lim by (intro vat_validation_negative)
    with assms show False by simp
  qed
  from vat_validation_nonneg [OF p n lim] assms
  have s: "s = zfill 11 (decimal_repr n)" by (auto split: if_splits)
  from normalized_nonneg [OF n]
  have pad: "s = replicate (11 - length (digits_of (nat n))) CHR ''0'' @ digits_of (nat n)"
    unfolding s by blast
  have "length (digits_of (nat n)) \<le> int_max_str_digits" using lim n by simp
  then have "length (replicate (11 - length (digits_of (nat n))) CHR ''0'' @ digits_of (nat n))
      \<le> int_max_str_digits"
    by (simp add: int_max_str_digits_def)
  then have "py_int_str s = Inr (int (nat n))"
    unfolding pad by (rule py_int_str_padded)
  then have "py_int (PStr s) = Inr n" using n by (simp add: py_int_def)
  then have "py_int (PStr s) = py_int raw" using p by simp
  then have "vat_number_validation (PStr s) = vat_number_validation raw"
    by (rule vat_validation_cong)
  with assms show ?thesis by simp
qed

lemma vat_padded_example:
  "vat_number_validation (PStr ''0012345670017'') = Inr ''12345670017''"
  by (simp add: vat_number_validation_def py_int_padded_example py_str_def decimal_repr_def
      int_max_str_digits_def digits_of_example zfill_def slice_def vat_example_check_digit
      smart_text_def)

theorem C9_witness:
  "vat_number_validation (PStr ''0012345670017'') = Inr ''12345670017''
   \<and> vat_number_validation (PStr ''12345670017'') = Inr ''12345670017''"
  using C9_vat_validation_idempotent [OF vat_padded_example] vat_padded_example
  by simp

text \<open>
  Claim C10 as stated fails on the code. The integer \<open>10^4300\<close> is a nonnegative
  integer of more than 11 decimal digits, and \<open>vat_number_validation\<close> raises an error
  for its length: \<open>str()\<close> refuses an integer of more digits than the interpreter's
  limit.
\<close>

theorem C10_counterexample:
  "py_int (PInt (10 ^ 4300)) = Inr (10 ^ 4300)
   \<and> 11 < length (decimal_repr (10 ^ 4300))
   \<and> vat_number_validation (PInt (10 ^ 4300)) = Inl DigitLimitError"
proof -
  have "py_int (PInt (10 ^ 4300)) = Inr (10 ^ 4300)" by (simp only: py_int_def pyval.case)
  moreover from power_ten_beyond [OF limit_le_4300]
  have "4300 < length (decimal_repr (10 ^ 4300))"
    and "vat_number_validation (PInt (10 ^ 4300)) = Inl DigitLimitError" by blast+
  moreover from this(1) have "11 < length (decimal_repr (10 ^ 4300))" by linarith
  ultimately show ?thesis by blast
qed

text \<open>
  Claim C10, amended. \<open>vat_number_validation\<close> has no upper bound of its own on the
  length. For every input that parses as a nonnegative integer whose decimal
  representation has more than 11 digits (an integer of at least \<open>10^11\<close>), padding to
  11 digits leaves the representation unchanged. When the representation has no more
  digits than the interpreter's limit (4300), the result is either the checksum error
  or the representation itself, of more than 11 characters, returned when its character
  at index 10 is the check digit of its first ten digits; the text 123456700170 is
  returned unchanged. When it has more digits than the limit, \<open>str()\<close> raises the
  digit limit error.
\<close>

theorem C10_vat_validation_no_length_bound:
  assumes "py_int raw = Inr n" and "0 \<le> n" and "11 < length (decimal_repr n)"
  shows "10 ^ 11 \<le> n
     \<and> zfill 11 (decimal_repr n) = decimal_repr n
     \<and> (length (decimal_repr n) \<le> int_max_str_digits \<longrightarrow>
          (\<exists>d. vat_number_check_digit (PStr (slice 0 10 (decimal_repr n))) = Inr [d]
             \<and> vat_number_validation raw =
                 (if decimal_repr n ! 10 = d then Inr (decimal_repr n) else Inl ChecksumMismatchError)))
     \<and> (int_max_str_digits < length (decimal_repr n) \<longrightarrow>
          vat_number_validation raw = Inl DigitLimitError)
     \<and> vat_number_validation (PStr ''123456700170'') = Inr ''123456700170''"
proof -
  have s: "decimal_repr n = digits_of (nat n)" using assms(2) by (simp add: decimal_repr_def)
  have a: "nat \<bar>n\<bar> = nat n" using assms(2) by simp
  have big: "10 ^ 11 \<le> n"
  proof (rule ccontr)
    assume "\<not> 10 ^ 11 \<le> n"
    then have "nat n < 10 ^ 11" using assms(2) by (simp add: nat_less_iff)
    then have "length (digits_of (nat n)) \<le> 11" by (rule digits_of_length_le) simp
    with assms(3) show False by (simp add: s)
  qed
  have z: "zfill 11 (decimal_repr n) = decimal_repr n" using assms(3) by (simp add: zfill_def)
  have within: "length (decimal_repr n) \<le> int_max_str_digits \<longrightarrow>
          (\<exists>d. vat_number_check_digit (PStr (slice 0 10 (decimal_repr n))) = Inr [d]
             \<and> vat_number_validation raw =
                 (if decimal_repr n ! 10 = d then Inr (decimal_repr n) else Inl ChecksumMismatchError))"
  proof
    assume "length (decimal_repr n) \<le> int_max_str_digits"
    then have lim: "length (digits_of (nat \<bar>n\<bar>)) \<le> int_max_str_digits" by (simp only: a s)
    from vat_validation_nonneg [OF assms(1,2) lim]
    show "\<exists>d. vat_number_check_digit (PStr (slice 0 10 (decimal_repr n))) = Inr [d]
             \<and> vat_number_validation raw =
                 (if decimal_repr n ! 10 = d then Inr (decimal_repr n) else Inl ChecksumMismatchError)"
      unfolding z
      by (intro exI [of _ "digit_char (nat ((10 - spec_vat_sum (slice 0 10 (decimal_repr n)) mod 10) mod 10))"])
        auto
  qed
  have beyond: "int_max_str_digits < length (decimal_repr n) \<longrightarrow>
          vat_number_validation raw = Inl DigitLimitError"
  proof
    assume "int_max_str_digits < length (decimal_repr n)"
    then have "int_max_str_digits < length (digits_of (nat \<bar>n\<bar>))" by (simp only: a s)
    with assms(1) show "vat_number_validation raw = Inl DigitLimitError"
      by (rule vat_validation_beyond)
  qed
  from big z within beyond vat_long_example show ?thesis by blast
qed

theorem C10_witness:
  "py_int (PStr ''123456700170'') = Inr 123456700170
   \<and> decimal_repr 123456700170 = ''123456700170''
   \<and> 11 < length (decimal_repr 123456700170)
   \<and> length (decimal_repr 123456700170) \<le> int_max_str_digits
   \<and> zfill 11 (decimal_repr 123456700170) = decimal_repr 123456700170
   \<and> vat_number_check_digit (PStr (slice 0 10 (decimal_repr 123456700170))) = Inr ''7''
   \<and> vat_number_validation (PStr ''123456700170'') = Inr ''123456700170''"
proof -
  note s = decimal_long_example
  have h3: "11 < length (decimal_repr 123456700170)" by (simp add: s)
  have h4: "length (decimal_repr 123456700170) \<le> int_max_str_digits"
    by (simp add: s int_max_str_digits_def)
  have h2: "(0::int) \<le> 123456700170" by simp
  have sl: "slice 0 10 (decimal_repr 123456700170) = ''1234567001''"
    by (simp add: s slice_def)
  have cd: "vat_number_check_digit (PStr (slice 0 10 (decimal_repr 123456700170))) = Inr ''7''"
    by (simp only: sl vat_example_check_digit)
  from C10_vat_validation_no_length_bound [OF py_int_long_example h2 h3] h4
  obtain d where z: "zfill 11 (decimal_repr 123456700170) = decimal_repr 123456700170"
    and d: "vat_number_check_digit (PStr (slice 0 10 (decimal_repr 123456700170))) = Inr [d]"
    and r: "vat_number_validation (PStr ''123456700170'') =
        (if decimal_repr 123456700170 ! 10 = d then Inr (decimal_repr 123456700170)
         else Inl ChecksumMismatchError)"
    by blast
  from d cd have "d = CHR ''7''" by simp
  with r have "vat_number_validation (PStr ''123456700170'') = Inr ''123456700170''"
    by (simp add: s)
  with py_int_long_example s h3 h4 z cd show ?thesis by blast
qed

section \<open>Further properties of the decoded fields\<close>

lemma ssn_year_field:
  assumes "ssn_isvalid (PStr s)"
  shows "py_int (PStr (slice 6 8 s)) = Inr (int (10 * digit_val (s ! 6) + digit_val (s ! 7)))"
proof -
  from ssn_isvalid_fields [OF assms]
  have len: "16 \<le> length s" and d: "is_digit (s ! 6)" "is_digit (s ! 7)" by simp_all
  have "slice 6 (6 + 2) s = [s ! 6, s ! (6 + 1)]"
    using len by (intro slice_two) simp
  then have "slice 6 8 s = [s ! 6, s ! 7]" by simp
  then show ?thesis
    using py_int_str_two_digits [OF d] by (simp add: py_int_def)
qed

lemma month_index:
  assumes "c \<in> set ''ABCDEHLMPRST''"
  shows "\<exists>m<12. index_of MONTHSCODE [c] = Some m"
proof -
  from assms have "c = CHR ''A'' \<or> c = CHR ''B'' \<or> c = CHR ''C'' \<or> c = CHR ''D'' \<or> c = CHR ''E''
      \<or> c = CHR ''H'' \<or> c = CHR ''L'' \<or> c = CHR ''M'' \<or> c = CHR ''P'' \<or> c = CHR ''R''
      \<or> c = CHR ''S'' \<or> c = CHR ''T''"
    by simp
  then show ?thesis
    by (elim disjE) (simp_all add: MONTHSCODE_def)
qed

lemma format_02d_small:
  assumes "\<bar>x\<bar> < 100"
  shows "format_02d x = Inr (zfill 2 (decimal_repr x))"
proof -
  have "nat \<bar>x\<bar> < 10 ^ 2" using assms by simp
  then have "length (digits_of (nat \<bar>x\<bar>)) \<le> 2" by (rule digits_of_length_le) simp
  then have "length (digits_of (nat \<bar>x\<bar>)) \<le> int_max_str_digits"
    by (simp add: int_max_str_digits_def)
  then show ?thesis by (simp add: format_02d_def py_str_within)
qed

lemma ssn_get_birthday_result:
  assumes "ssn_isvalid (PStr s)" and "\<not> length s \<le> 8"
    and "py_int (PStr (slice 9 11 s)) = Inr day0"
    and "index_of MONTHSCODE [s ! 8] = Some m"
    and "py_int (PStr (slice 6 8 s)) = Inr year"
    and "format_02d (if day0 < 32 then (if day0 \<noteq> 0 then day0 else day0 - 40) else day0 - 40) = Inr dd"
    and "format_02d (int m + 1) = Inr mm"
    and "format_02d year = Inr yy"
  shows "ssn_get_birthday (PStr s) = Inr (dd @ ''/'' @ mm @ ''/'' @ yy)"
  using assms by (simp add: ssn_get_birthday_def Let_def)

text \<open>
  For every code that \<open>ssn_isvalid\<close> accepts, \<open>ssn_get_birthday\<close> returns the day, the
  month and the year, each formatted with \<open>%02d\<close> (the decimal representation padded
  with zeros to two characters) and separated by \<open>/\<close>: the month is the 1-based
  position of the letter at index 8 in \<open>MONTHSCODE\<close>, the year is the two-digit integer
  at indices 6-7, and the day is the two-digit integer at indices 9-10, from which 40
  is subtracted when it is greater than 31 and also when it is 0.
\<close>

theorem ssn_get_birthday_decoded:
  assumes "ssn_isvalid (PStr s)"
  shows "\<exists>m<12. index_of MONTHSCODE [s ! 8] = Some m
     \<and> ssn_get_birthday (PStr s) =
         Inr (zfill 2 (decimal_repr
                (if 10 * digit_val (s ! 9) + digit_val (s ! 10) = 0
                    \<or> 31 < 10 * digit_val (s ! 9) + digit_val (s ! 10)
                 then int (10 * digit_val (s ! 9) + digit_val (s ! 10)) - 40
                 else int (10 * digit_val (s ! 9) + digit_val (s ! 10))))
              @ ''/'' @ zfill 2 (decimal_repr (int m + 1))
              @ ''/'' @ zfill 2 (decimal_repr (int (10 * digit_val (s ! 6) + digit_val (s ! 7)))))"
proof -
  from ssn_isvalid_fields [OF assms]
  have len: "16 \<le> length s" and mon: "s ! 8 \<in> set ''ABCDEHLMPRST''"
    and dig: "is_digit (s ! 6)" "is_digit (s ! 7)" "is_digit (s ! 9)" "is_digit (s ! 10)"
    by simp_all
  from month_index [OF mon] obtain m where m: "m < 12" "index_of MONTHSCODE [s ! 8] = Some m"
    by blast
  have l8: "\<not> length s \<le> 8" using len by simp
  define raw where "raw = 10 * digit_val (s ! 9) + digit_val (s ! 10)"
  define year where "year = 10 * digit_val (s ! 6) + digit_val (s ! 7)"
  define day where "day = (if raw = 0 \<or> 31 < raw then int raw - 40 else int raw)"
  have raw: "raw < 100" and yr: "year < 100"
    using digit_val_lt [OF dig(1)] digit_val_lt [OF dig(2)] digit_val_lt [OF dig(3)]
      digit_val_lt [OF dig(4)] by (simp_all add: raw_def year_def)
  have "\<bar>day\<bar> < 100" using raw by (auto simp add: day_def abs_if)
  then have fd: "format_02d day = Inr (zfill 2 (decimal_repr day))"
    by (rule format_02d_small)
  have fm: "format_02d (int m + 1) = Inr (zfill 2 (decimal_repr (int m + 1)))"
    using m(1) by (intro format_02d_small) simp
  have fy: "format_02d (int year) = Inr (zfill 2 (decimal_repr (int year)))"
    using yr by (intro format_02d_small) simp
  have code_day: "(if int raw < 32 then (if int raw \<noteq> 0 then int raw else int raw - 40) else int raw - 40) = day"
    by (simp add: day_def)
  have df: "py_int (PStr (slice 9 11 s)) = Inr (int raw)"
    using ssn_day_field [OF assms] by (simp only: raw_def)
  have yf: "py_int (PStr (slice 6 8 s)) = Inr (int year)"
    using ssn_year_field [OF assms] by (simp only: year_def)
  have fd': "format_02d (if int raw < 32 then (if int raw \<noteq> 0 then int raw else int raw - 40)
      else int raw - 40) = Inr (zfill 2 (decimal_repr day))"
    by (simp only: code_day fd)
  have "ssn_get_birthday (PStr s) =
      Inr (zfill 2 (decimal_repr day) @ ''/'' @ zfill 2 (decimal_repr (int m + 1))
           @ ''/'' @ zfill 2 (decimal_repr (int year)))"
    using assms l8 df m(2) yf fd' fm fy by (rule ssn_get_birthday_result)
  with m show ?thesis unfolding day_def raw_def year_def by blast
qed

theorem ssn_get_birthday_decoded_witness:
  "ssn_isvalid (PStr ''CNTCHR83T41D969D'')
   \<and> ssn_get_birthday (PStr ''CNTCHR83T41D969D'') = Inr ''01/12/83''"
proof -
  let ?s = "''CNTCHR83T41D969D''"
  from ssn_get_birthday_decoded [OF ssn_isvalid_female_example]
  obtain m where m: "index_of MONTHSCODE [?s ! 8] = Some m"
    and b: "ssn_get_birthday (PStr ?s) =
         Inr (zfill 2 (decimal_repr
                (if 10 * digit_val (?s ! 9) + digit_val (?s ! 10) = 0
                    \<or> 31 < 10 * digit_val (?s ! 9) + digit_val (?s ! 10)
                 then int (10 * digit_val (?s ! 9) + digit_val (?s ! 10)) - 40
                 else int (10 * digit_val (?s ! 9) + digit_val (?s ! 10))))
              @ ''/'' @ zfill 2 (decimal_repr (int m + 1))
              @ ''/'' @ zfill 2 (decimal_repr (int (10 * digit_val (?s ! 6) + digit_val (?s ! 7)))))"
    by blast
  from m have "m = 11" by (simp add: MONTHSCODE_def)
  with b have "ssn_get_birthday (PStr ?s) = Inr ''01/12/83''"
    by (simp add: digit_val_def py_ord_def zfill_def decimal_repr_def digits_of.simps
        digit_char_def py_chr_def char_of_def bit_0)
  with ssn_isvalid_female_example show ?thesis by blast
qed

text \<open>
  \<open>ssn_isvalid\<close> is false for an integer, and a text it accepts has 16 characters, or 17
  of which the last is a line feed.
\<close>

theorem ssn_isvalid_length:
  "\<not> ssn_isvalid (PInt n)
   \<and> (ssn_isvalid (PStr s) \<longrightarrow> length s = 16 \<or> (length s = 17 \<and> s ! 16 = CHR 0x0A))"
proof (intro conjI impI)
  show "\<not> ssn_isvalid (PInt n)" by (simp add: ssn_isvalid_def)
next
  assume "ssn_isvalid (PStr s)"
  from ssn_isvalid_fields [OF this]
  have len: "16 \<le> length s" and d: "at_dollar (drop 16 s)" by simp_all
  from d have "drop 16 s = [] \<or> drop 16 s = [CHR 0x0A]" by (simp add: at_dollar_def)
  then show "length s = 16 \<or> (length s = 17 \<and> s ! 16 = CHR 0x0A)"
  proof
    assume "drop 16 s = []"
    then show ?thesis using len by simp
  next
    assume e: "drop 16 s = [CHR 0x0A]"
    then have "length (drop 16 s) = 1" by simp
    then have l: "length s = 17" by simp
    have "drop 16 s ! 0 = s ! (16 + 0)" using l by (intro nth_drop) simp
    then have "s ! 16 = CHR 0x0A" by (simp add: e)
    with l show ?thesis by blast
  qed
qed

theorem ssn_isvalid_length_witness:
  "ssn_isvalid (PStr (''RCCMNL83S18D969H'' @ [CHR 0x0A]))
   \<and> length (''RCCMNL83S18D969H'' @ [CHR 0x0A]) = 17
   \<and> (''RCCMNL83S18D969H'' @ [CHR 0x0A]) ! 16 = CHR 0x0A"
proof -
  have v: "ssn_isvalid (PStr (''RCCMNL83S18D969H'' @ [CHR 0x0A]))"
    by (simp add: ssn_isvalid_def re_match_def PATTERN_def at_dollar_def py_ord_def)
  from ssn_isvalid_length [of 0 "''RCCMNL83S18D969H'' @ [CHR 0x0A]"] v
  have "length (''RCCMNL83S18D969H'' @ [CHR 0x0A]) = 16
      \<or> (length (''RCCMNL83S18D969H'' @ [CHR 0x0A]) = 17 \<and> (''RCCMNL83S18D969H'' @ [CHR 0x0A]) ! 16 = CHR 0x0A)"
    by blast
  then have "length (''RCCMNL83S18D969H'' @ [CHR 0x0A]) = 17 \<and> (''RCCMNL83S18D969H'' @ [CHR 0x0A]) ! 16 = CHR 0x0A"
    by simp
  with v show ?thesis by blast
qed

end
